theory Spec2Isabelle
  imports Main
begin

section \<open>JavaScript strings and numbers\<close>

text \<open>
  A JavaScript string is a sequence of UTF-16 code units; \<open>length\<close>, \<open>slice\<close> and
  \<open>substring\<close> count code units. A string is modelled as the list of its code units,
  so that the symbols outside ASCII which the worker puts into its messages are one
  element each, as they are in the source. \<open>str\<close> embeds an ASCII literal.
\<close>

type_synonym jstring = "nat list"

definition str :: "string \<Rightarrow> jstring" where
  "str s = map of_char s"

text \<open>
  The numbers the worker computes with are integers or \<open>NaN\<close> (the result of
  \<open>parseInt\<close> on a string without digits, and of the getters of an invalid Date).
  \<open>None\<close> is \<open>NaN\<close>. The model is exact below \<open>2^53\<close>, where doubles are integers.
\<close>

type_synonym number = "int option"

fun digits :: "nat \<Rightarrow> jstring" where
  "digits n = (if n < 10 then [48 + n] else digits (n div 10) @ [48 + n mod 10])"

declare digits.simps [simp del]

definition toString :: "number \<Rightarrow> jstring" where
  "toString n = (case n of
       None \<Rightarrow> str ''NaN''
     | Some i \<Rightarrow> if i < 0 then str ''-'' @ digits (nat (- i)) else digits (nat i))"

definition padStart :: "nat \<Rightarrow> jstring \<Rightarrow> jstring" where
  \<comment> \<open>\<open>s.padStart(n, "0")\<close>\<close>
  "padStart n s = replicate (n - length s) 48 @ s"

definition pad2 :: "number \<Rightarrow> jstring" where
  "pad2 n = padStart 2 (toString n)"

definition slice0 :: "jstring \<Rightarrow> int \<Rightarrow> jstring" where
  \<comment> \<open>\<open>s.slice(0, e)\<close>: a negative end counts from the end of the string\<close>
  "slice0 s e = (if e < 0 then take (nat (int (length s) + e)) s else take (nat e) s)"

definition truncate_msg :: "jstring \<Rightarrow> int \<Rightarrow> jstring" where
  \<comment> \<open>\<open>truncate\<close> of the source; every record of this theory has a \<open>truncate\<close> of its own\<close>
  "truncate_msg s mx = (if int (length s) > mx then slice0 s (mx - 3) @ str ''...'' else s)"

definition isDigit :: "nat \<Rightarrow> bool" where
  "isDigit c = (48 \<le> c \<and> c \<le> 57)"

definition isWhiteSpace :: "nat \<Rightarrow> bool" where
  \<comment> \<open>the code units \<open>parseInt\<close> skips in front: WhiteSpace and LineTerminator\<close>
  "isWhiteSpace c = (c \<in> {9, 10, 11, 12, 13, 32, 160, 5760, 8232, 8233, 8239, 8287, 12288, 65279}
       \<or> (8192 \<le> c \<and> c \<le> 8202))"

definition digitsValue :: "jstring \<Rightarrow> int" where
  "digitsValue ds = foldl (\<lambda>a c. 10 * a + (int c - 48)) 0 ds"

definition parseInt :: "jstring \<Rightarrow> number" where
  \<comment> \<open>\<open>parseInt(s, 10)\<close>\<close>
  "parseInt s =
     (let t = dropWhile isWhiteSpace s;
          neg = (t \<noteq> [] \<and> hd t = 45);
          u = (if t \<noteq> [] \<and> (hd t = 45 \<or> hd t = 43) then tl t else t);
          ds = takeWhile isDigit u
      in if ds = [] then None
         else Some (if neg then - digitsValue ds else digitsValue ds))"

definition orElse :: "jstring option \<Rightarrow> jstring \<Rightarrow> jstring" where
  \<comment> \<open>\<open>v || dflt\<close> on a string that may be absent: absent and empty are falsy\<close>
  "orElse v dflt = (case v of None \<Rightarrow> dflt | Some s \<Rightarrow> if s = [] then dflt else s)"

datatype error = Error jstring

section \<open>Dates\<close>

text \<open>
  Every Date the worker builds is at midnight UTC, and of the current time it reads the
  UTC year and month only. A time value is therefore modelled by its day number
  (\<open>Day(t)\<close> of ECMAScript, days since 1970-01-01), and a Date by a day number or
  \<open>None\<close>, the invalid Date whose time value is \<open>NaN\<close>. The functions below are the
  ones of the ECMAScript specification, at the granularity of days.
\<close>

type_synonym Date = "int option"

definition DaysInYear :: "int \<Rightarrow> int" where
  "DaysInYear y =
     (if y mod 4 \<noteq> 0 then 365 else if y mod 100 \<noteq> 0 then 366
      else if y mod 400 \<noteq> 0 then 365 else 366)"

definition DayFromYear :: "int \<Rightarrow> int" where
  "DayFromYear y =
     365 * (y - 1970) + (y - 1969) div 4 - (y - 1901) div 100 + (y - 1601) div 400"

text \<open>
  \<open>DayFromYear\<close> grows by the length of the year; the search for the year of a day
  below terminates by this.
\<close>

lemma div_succ:
  "0 < k \<Longrightarrow> ((a::int) + 1) div k = a div k + (if (a + 1) mod k = 0 then 1 else 0)"
proof -
  assume k: "0 < k"
  show ?thesis
  proof (cases "(a + 1) mod k = 0")
    case True
    then obtain q where q: "a + 1 = k * q" by auto
    have "a = k * (q - 1) + (k - 1)" using q by (simp add: algebra_simps)
    then have "a div k = q - 1" using k by (intro int_div_pos_eq[where r = "k - 1"]) auto
    then show ?thesis using q k True by simp
  next
    case False
    define r where "r = (a + 1) mod k"
    have r0: "0 \<le> r" "r < k" using k by (simp_all add: r_def)
    have r: "0 < r" using r0 False by (simp add: r_def less_le)
    have "a + 1 = k * ((a + 1) div k) + r" by (simp add: r_def)
    then have "a = k * ((a + 1) div k) + (r - 1)" by simp
    then have "a div k = (a + 1) div k"
      using r r0 by (intro int_div_pos_eq[where r = "r - 1"]) auto
    then show ?thesis using False by simp
  qed
qed

lemma mod_shift: "((y::int) - c * k) mod k = y mod k"
  using mod_mult_self1[of y "- c" k] by simp

lemma mod_400_100: "(y::int) mod 400 = 0 \<Longrightarrow> y mod 100 = 0"
  using mod_mod_cancel[of 100 400 y] by simp

lemma mod_100_4: "(y::int) mod 100 = 0 \<Longrightarrow> y mod 4 = 0"
  using mod_mod_cancel[of 4 100 y] by simp

lemma div4_step:
  "((y::int) + 1 - 1969) div 4 = (y - 1969) div 4 + (if y mod 4 = 0 then 1 else 0)"
  using div_succ[of 4 "y - 1969"] mod_shift[of y 492 4] by simp

lemma div100_step:
  "((y::int) + 1 - 1901) div 100 = (y - 1901) div 100 + (if y mod 100 = 0 then 1 else 0)"
  using div_succ[of 100 "y - 1901"] mod_shift[of y 19 100] by simp

lemma div400_step:
  "((y::int) + 1 - 1601) div 400 = (y - 1601) div 400 + (if y mod 400 = 0 then 1 else 0)"
  using div_succ[of 400 "y - 1601"] mod_shift[of y 4 400] by simp

lemma DayFromYear_step: "DayFromYear (y + 1) = DayFromYear y + DaysInYear y"
  unfolding DayFromYear_def DaysInYear_def div4_step div100_step div400_step
  using mod_400_100[of y] mod_100_4[of y] by auto

lemma DaysInYear_cases: "DaysInYear y = 365 \<or> DaysInYear y = 366"
  by (simp add: DaysInYear_def)

lemma DayFromYear_less_next: "DayFromYear y < DayFromYear (y + 1)"
  using DaysInYear_cases[of y] by (auto simp: DayFromYear_step)

lemma DayFromYear_prev_less: "DayFromYear (y - 1) < DayFromYear y"
  using DayFromYear_less_next[of "y - 1"] by simp

text \<open>
  \<open>YearFromTime(t)\<close> is the largest \<open>y\<close> with \<open>DayFromYear y \<le> Day(t)\<close>. It is computed
  here by a search from an estimate: down to a year that starts on or before the day, then
  up to the last such year.
\<close>

function yearDown :: "int \<Rightarrow> int \<Rightarrow> int" where
  "yearDown y d = (if d < DayFromYear y then yearDown (y - 1) d else y)"
  by pat_completeness auto
termination
proof (relation "measure (\<lambda>(y, d). nat (DayFromYear y - d))")
  show "wf (measure (\<lambda>(y, d). nat (DayFromYear y - d)))" by simp
next
  fix y d :: int
  assume "d < DayFromYear y"
  then show "((y - 1, d), (y, d)) \<in> measure (\<lambda>(y, d). nat (DayFromYear y - d))"
    using DayFromYear_prev_less[of y] by simp
qed

function yearUp :: "int \<Rightarrow> int \<Rightarrow> int" where
  "yearUp y d = (if DayFromYear (y + 1) \<le> d then yearUp (y + 1) d else y)"
  by pat_completeness auto
termination
proof (relation "measure (\<lambda>(y, d). nat (d - DayFromYear y))")
  show "wf (measure (\<lambda>(y, d). nat (d - DayFromYear y)))" by simp
next
  fix y d :: int
  assume "DayFromYear (y + 1) \<le> d"
  then show "((y + 1, d), (y, d)) \<in> measure (\<lambda>(y, d). nat (d - DayFromYear y))"
    using DayFromYear_less_next[of y] by simp
qed

declare yearDown.simps [simp del] yearUp.simps [simp del]

definition YearFromDay :: "int \<Rightarrow> int" where
  "YearFromDay d = yearUp (yearDown (1970 + d div 365) d) d"

definition InLeapYear :: "int \<Rightarrow> int" where
  "InLeapYear d = (if DaysInYear (YearFromDay d) = 366 then 1 else 0)"

definition DayWithinYear :: "int \<Rightarrow> int" where
  "DayWithinYear d = d - DayFromYear (YearFromDay d)"

definition MonthFromDay :: "int \<Rightarrow> int" where
  "MonthFromDay d =
     (let w = DayWithinYear d; l = InLeapYear d
      in if w < 31 then 0 else if w < 59 + l then 1 else if w < 90 + l then 2
         else if w < 120 + l then 3 else if w < 151 + l then 4 else if w < 181 + l then 5
         else if w < 212 + l then 6 else if w < 243 + l then 7 else if w < 273 + l then 8
         else if w < 304 + l then 9 else if w < 334 + l then 10 else 11)"

definition DateFromDay :: "int \<Rightarrow> int" where
  "DateFromDay d =
     (let w = DayWithinYear d; l = InLeapYear d; m = MonthFromDay d
      in if m = 0 then w + 1 else if m = 1 then w - 30 else if m = 2 then w - 58 - l
         else if m = 3 then w - 89 - l else if m = 4 then w - 119 - l
         else if m = 5 then w - 150 - l else if m = 6 then w - 180 - l
         else if m = 7 then w - 211 - l else if m = 8 then w - 242 - l
         else if m = 9 then w - 272 - l else if m = 10 then w - 303 - l else w - 333 - l)"

definition monthStart :: "int \<Rightarrow> int \<Rightarrow> int" where
  \<comment> \<open>the day within the year on which month \<open>m\<close> (0 to 11) starts; \<open>l\<close> is 1 in a leap year\<close>
  "monthStart m l =
     (if m = 0 then 0 else if m = 1 then 31 else if m = 2 then 59 + l
      else if m = 3 then 90 + l else if m = 4 then 120 + l else if m = 5 then 151 + l
      else if m = 6 then 181 + l else if m = 7 then 212 + l else if m = 8 then 243 + l
      else if m = 9 then 273 + l else if m = 10 then 304 + l else 334 + l)"

definition MakeDay :: "int \<Rightarrow> int \<Rightarrow> int \<Rightarrow> int" where
  \<comment> \<open>\<open>MakeDay(year, month, date)\<close>: months beyond 0 to 11 carry into the year, the date
      counts on from the first of the month\<close>
  "MakeDay y m dt =
     (let ym = y + m div 12; mn = m mod 12
      in DayFromYear ym + monthStart mn (if DaysInYear ym = 366 then 1 else 0) + dt - 1)"

definition TimeClip :: "int \<Rightarrow> Date" where
  \<comment> \<open>a time value is at most \<open>8.64e15\<close> ms, 100,000,000 days, from the epoch\<close>
  "TimeClip d = (if \<bar>d\<bar> \<le> 100000000 then Some d else None)"

definition DateUTC :: "number \<Rightarrow> number \<Rightarrow> number \<Rightarrow> Date" where
  \<comment> \<open>\<open>new Date(Date.UTC(y, m, dt))\<close>; a year from 0 to 99 means 1900 + year\<close>
  "DateUTC y m dt =
     (case (y, m, dt) of
        (Some y', Some m', Some dt') \<Rightarrow>
          TimeClip (MakeDay (if 0 \<le> y' \<and> y' \<le> 99 then 1900 + y' else y') m' dt')
      | _ \<Rightarrow> None)"

definition getUTCFullYear :: "Date \<Rightarrow> number" where
  "getUTCFullYear t = map_option YearFromDay t"

definition getUTCMonth :: "Date \<Rightarrow> number" where
  "getUTCMonth t = map_option MonthFromDay t"

definition getUTCDate :: "Date \<Rightarrow> number" where
  "getUTCDate t = map_option DateFromDay t"

definition setUTCDate :: "int \<Rightarrow> number \<Rightarrow> Date" where
  \<comment> \<open>\<open>d.setUTCDate(dt)\<close> on a valid Date with day number \<open>d\<close>: the new time value\<close>
  "setUTCDate d dt =
     (case dt of None \<Rightarrow> None
      | Some dt' \<Rightarrow> TimeClip (MakeDay (YearFromDay d) (MonthFromDay d) dt'))"

definition plus :: "number \<Rightarrow> number \<Rightarrow> number" where
  \<comment> \<open>\<open>a + b\<close> on numbers\<close>
  "plus a b = (case (a, b) of (Some x, Some y) \<Rightarrow> Some (x + y) | _ \<Rightarrow> None)"

definition isoString :: "int \<Rightarrow> jstring" where
  \<comment> \<open>\<open>toISOString\<close> of the valid Date with day number \<open>d\<close>; a year outside 0 to 9999 is
      written with a sign and six digits\<close>
  "isoString d =
     (let y = YearFromDay d
      in (if 0 \<le> y \<and> y \<le> 9999 then padStart 4 (digits (nat y))
          else (if y < 0 then str ''-'' else str ''+'') @ padStart 6 (digits (nat \<bar>y\<bar>)))
         @ str ''-'' @ padStart 2 (digits (nat (MonthFromDay d + 1)))
         @ str ''-'' @ padStart 2 (digits (nat (DateFromDay d)))
         @ str ''T00:00:00.000Z'')"

definition toISOString :: "Date \<Rightarrow> error + jstring" where
  \<comment> \<open>on an invalid Date \<open>toISOString\<close> throws a RangeError\<close>
  "toISOString t =
     (case t of None \<Rightarrow> Inl (Error (str ''Invalid time value'')) | Some d \<Rightarrow> Inr (isoString d))"

subsection \<open>The calendar\<close>

text \<open>
  The Gregorian calendar as the claims speak of it: leap years and the length of month
  \<open>m\<close> (1 to 12) of year \<open>y\<close>.
\<close>

definition isLeapYear :: "int \<Rightarrow> bool" where
  "isLeapYear y = (if y mod 400 = 0 then True else if y mod 100 = 0 then False else y mod 4 = 0)"

definition DaysInMonth :: "int \<Rightarrow> int \<Rightarrow> int" where
  "DaysInMonth y m =
     (if m = 2 then (if isLeapYear y then 29 else 28)
      else if m = 4 \<or> m = 6 \<or> m = 9 \<or> m = 11 then 30 else 31)"

subsection \<open>Year, month and date of a day number\<close>

lemma DayFromYear_mono: "y \<le> y' \<Longrightarrow> DayFromYear y \<le> DayFromYear y'"
proof (induction y' rule: int_ge_induct)
  case base
  show ?case by simp
next
  case (step i)
  then show ?case using DayFromYear_less_next[of i] by simp
qed

lemma yearDown_le: "DayFromYear (yearDown y d) \<le> d"
proof (induction y d rule: yearDown.induct)
  case (1 y d)
  then show ?case by (subst yearDown.simps) auto
qed

lemma yearUp_bounds:
  "DayFromYear y \<le> d \<Longrightarrow> DayFromYear (yearUp y d) \<le> d \<and> d < DayFromYear (yearUp y d + 1)"
proof (induction y d rule: yearUp.induct)
  case (1 y d)
  then show ?case by (subst (1 2) yearUp.simps) auto
qed

lemma YearFromDay_bounds:
  "DayFromYear (YearFromDay d) \<le> d \<and> d < DayFromYear (YearFromDay d + 1)"
  unfolding YearFromDay_def by (rule yearUp_bounds) (rule yearDown_le)

lemma YearFromDay_eq:
  assumes "DayFromYear y \<le> d" "d < DayFromYear (y + 1)"
  shows "YearFromDay d = y"
proof (rule ccontr)
  let ?z = "YearFromDay d"
  assume ne: "?z \<noteq> y"
  have b: "DayFromYear ?z \<le> d" "d < DayFromYear (?z + 1)"
    using YearFromDay_bounds[of d] by simp_all
  show False
  proof (cases "?z < y")
    case True
    then have "DayFromYear (?z + 1) \<le> DayFromYear y" by (intro DayFromYear_mono) simp
    then show False using b assms by simp
  next
    case False
    then have "y + 1 \<le> ?z" using ne by simp
    then have "DayFromYear (y + 1) \<le> DayFromYear ?z" by (rule DayFromYear_mono)
    then show False using b assms by simp
  qed
qed

lemma DaysInYear_leap: "DaysInYear y = (if isLeapYear y then 366 else 365)"
  using mod_400_100[of y] mod_100_4[of y] by (auto simp: DaysInYear_def isLeapYear_def)

lemma month_cases:
  "0 \<le> m \<Longrightarrow> m < 12 \<Longrightarrow>
   (m::int) = 0 \<or> m = 1 \<or> m = 2 \<or> m = 3 \<or> m = 4 \<or> m = 5 \<or> m = 6 \<or> m = 7 \<or> m = 8 \<or> m = 9 \<or> m = 10 \<or> m = 11"
  by arith

lemma year_of_offset:
  assumes "0 \<le> w" "w < DaysInYear y"
  shows "YearFromDay (DayFromYear y + w) = y"
  using assms by (intro YearFromDay_eq) (simp_all add: DayFromYear_step)

lemma civil_of_MakeDay:
  assumes m: "0 \<le> m" "m < 12" and dt: "1 \<le> dt" "dt \<le> DaysInMonth y (m + 1)"
  shows "YearFromDay (MakeDay y m dt) = y \<and> MonthFromDay (MakeDay y m dt) = m
         \<and> DateFromDay (MakeDay y m dt) = dt"
proof -
  define l :: int where "l = (if isLeapYear y then 1 else 0)"
  define w where "w = monthStart m l + dt - 1"
  have md: "MakeDay y m dt = DayFromYear y + w"
    using m by (simp add: MakeDay_def w_def l_def DaysInYear_leap)
  have l: "l = 0 \<or> l = 1" by (simp add: l_def)
  have dim: "DaysInMonth y (m + 1) =
      (if m = 1 then 28 + l else if m = 3 \<or> m = 5 \<or> m = 8 \<or> m = 10 then 30 else 31)"
    by (simp add: DaysInMonth_def l_def)
  have wb: "monthStart m l \<le> w" "w < monthStart m l + DaysInMonth y (m + 1)"
    using dt by (simp_all add: w_def)
  have ms: "0 \<le> monthStart m l" "monthStart m l + DaysInMonth y (m + 1) \<le> DaysInYear y"
    unfolding dim using month_cases[OF m]
    by (elim disjE; simp add: monthStart_def l_def DaysInYear_leap)+
  have w: "0 \<le> w" "w < DaysInYear y"
    using wb ms by simp_all
  have yr: "YearFromDay (DayFromYear y + w) = y" using w by (rule year_of_offset)
  have dw: "DayWithinYear (DayFromYear y + w) = w" by (simp add: DayWithinYear_def yr)
  have lp: "InLeapYear (DayFromYear y + w) = l"
    by (simp add: InLeapYear_def yr l_def DaysInYear_leap)
  have mo0: "MonthFromDay (DayFromYear y + w) =
      (if w < 31 then 0 else if w < 59 + l then 1 else if w < 90 + l then 2
         else if w < 120 + l then 3 else if w < 151 + l then 4 else if w < 181 + l then 5
         else if w < 212 + l then 6 else if w < 243 + l then 7 else if w < 273 + l then 8
         else if w < 304 + l then 9 else if w < 334 + l then 10 else 11)"
    by (simp add: MonthFromDay_def dw lp)
  have mo: "MonthFromDay (DayFromYear y + w) = m"
    unfolding mo0 using month_cases[OF m] wb l unfolding dim
    by (elim disjE; simp add: monthStart_def)
  have da0: "DateFromDay (DayFromYear y + w) = w + 1 - monthStart m l"
    using month_cases[OF m] by (elim disjE; simp add: DateFromDay_def mo dw lp monthStart_def)
  have da: "DateFromDay (DayFromYear y + w) = dt"
    unfolding da0 by (simp add: w_def)
  show ?thesis by (simp add: md yr mo da)
qed

lemma DayWithinYear_range:
  "0 \<le> DayWithinYear d \<and> DayWithinYear d < DaysInYear (YearFromDay d)"
  using YearFromDay_bounds[of d] by (simp add: DayWithinYear_def DayFromYear_step)

lemma MonthFromDay_range: "0 \<le> MonthFromDay d \<and> MonthFromDay d < 12"
  by (simp add: MonthFromDay_def Let_def)

lemma InLeapYear_leap: "InLeapYear d = (if isLeapYear (YearFromDay d) then 1 else 0)"
  by (simp add: InLeapYear_def DaysInYear_leap)

lemma DateFromDay_eq:
  "DateFromDay d = DayWithinYear d + 1 - monthStart (MonthFromDay d) (InLeapYear d)"
proof -
  have r: "0 \<le> MonthFromDay d" "MonthFromDay d < 12" using MonthFromDay_range[of d] by simp_all
  show ?thesis
    using month_cases[OF r] by (elim disjE; simp add: DateFromDay_def monthStart_def Let_def)
qed

lemma month_chain_bounds:
  fixes w l :: int
  assumes "0 \<le> w" "w < 365 + l" "l = 0 \<or> l = 1"
  defines "m \<equiv> (if w < 31 then 0 else if w < 59 + l then 1 else if w < 90 + l then 2
         else if w < 120 + l then 3 else if w < 151 + l then 4 else if w < 181 + l then 5
         else if w < 212 + l then 6 else if w < 243 + l then 7 else if w < 273 + l then 8
         else if w < 304 + l then 9 else if w < 334 + l then 10 else (11::int))"
  shows "monthStart m l \<le> w \<and> w < monthStart m l +
      (if m = 1 then 28 + l else if m = 3 \<or> m = 5 \<or> m = 8 \<or> m = 10 then 30 else 31)"
  using assms(1-3) unfolding m_def by (simp add: monthStart_def)

lemma within_month:
  "monthStart (MonthFromDay d) (InLeapYear d) \<le> DayWithinYear d \<and>
   DayWithinYear d < monthStart (MonthFromDay d) (InLeapYear d)
      + DaysInMonth (YearFromDay d) (MonthFromDay d + 1)"
proof -
  have l: "InLeapYear d = 0 \<or> InLeapYear d = 1" by (simp add: InLeapYear_def)
  have w: "0 \<le> DayWithinYear d" "DayWithinYear d < 365 + InLeapYear d"
    using DayWithinYear_range[of d] DaysInYear_cases[of "YearFromDay d"]
    by (auto simp: InLeapYear_def)
  have dim: "DaysInMonth (YearFromDay d) (MonthFromDay d + 1) =
      (if MonthFromDay d = 1 then 28 + InLeapYear d
       else if MonthFromDay d = 3 \<or> MonthFromDay d = 5 \<or> MonthFromDay d = 8 \<or> MonthFromDay d = 10
       then 30 else 31)"
    by (simp add: DaysInMonth_def InLeapYear_leap)
  have mo: "MonthFromDay d = (if DayWithinYear d < 31 then 0
         else if DayWithinYear d < 59 + InLeapYear d then 1
         else if DayWithinYear d < 90 + InLeapYear d then 2
         else if DayWithinYear d < 120 + InLeapYear d then 3
         else if DayWithinYear d < 151 + InLeapYear d then 4
         else if DayWithinYear d < 181 + InLeapYear d then 5
         else if DayWithinYear d < 212 + InLeapYear d then 6
         else if DayWithinYear d < 243 + InLeapYear d then 7
         else if DayWithinYear d < 273 + InLeapYear d then 8
         else if DayWithinYear d < 304 + InLeapYear d then 9
         else if DayWithinYear d < 334 + InLeapYear d then 10 else 11)"
    by (simp add: MonthFromDay_def Let_def)
  show ?thesis
    unfolding dim unfolding mo by (rule month_chain_bounds[OF w l])
qed

lemma DateFromDay_range:
  "1 \<le> DateFromDay d \<and> DateFromDay d \<le> DaysInMonth (YearFromDay d) (MonthFromDay d + 1)"
  using within_month[of d] by (simp add: DateFromDay_eq)

lemma MakeDay_civil:
  "MakeDay (YearFromDay d) (MonthFromDay d) dt = d - DateFromDay d + dt"
proof -
  have r: "0 \<le> MonthFromDay d" "MonthFromDay d < 12" using MonthFromDay_range[of d] by simp_all
  then show ?thesis
    by (simp add: MakeDay_def DateFromDay_eq InLeapYear_def DayWithinYear_def)
qed

lemma setUTCDate_next: "setUTCDate d (plus (getUTCDate (Some d)) (Some 1)) = TimeClip (d + 1)"
  by (simp add: setUTCDate_def plus_def getUTCDate_def MakeDay_civil)

section \<open>The month range and the available days\<close>

definition Date_parse :: "jstring \<Rightarrow> Date" where
  \<comment> \<open>\<open>new Date(s)\<close> for the two shapes \<open>calculateMonthRange\<close> can hand on, each followed
      by the time \<open>T00:00:00.000Z\<close>: \<open>YYYY-MM-DD\<close>, and \<open>+YYYYYY-MM\<close> or \<open>-YYYYYY-MM\<close>, the
      first ten code units of a date with an expanded year. A day of 1 to 31 beyond the
      month's length runs on into the next month, as V8 has it. Any other string is taken
      as an invalid Date.\<close>
  "Date_parse s =
     (if length s = 24 \<and> drop 10 s = str ''T00:00:00.000Z''
         \<and> list_all isDigit (take 4 s) \<and> s ! 4 = 45
         \<and> list_all isDigit (take 2 (drop 5 s)) \<and> s ! 7 = 45
         \<and> list_all isDigit (take 2 (drop 8 s))
      then (let y = digitsValue (take 4 s); m = digitsValue (take 2 (drop 5 s));
                dt = digitsValue (take 2 (drop 8 s))
            in if 1 \<le> m \<and> m \<le> 12 \<and> 1 \<le> dt \<and> dt \<le> 31
               then TimeClip (MakeDay y (m - 1) dt) else None)
      else if length s = 24 \<and> drop 10 s = str ''T00:00:00.000Z''
         \<and> (s ! 0 = 43 \<or> s ! 0 = 45) \<and> list_all isDigit (take 6 (drop 1 s)) \<and> s ! 7 = 45
         \<and> list_all isDigit (take 2 (drop 8 s))
      then (let y = digitsValue (take 6 (drop 1 s)); m = digitsValue (take 2 (drop 8 s))
            in if 1 \<le> m \<and> m \<le> 12 \<and> (s ! 0 = 43 \<or> y \<noteq> 0)
               then TimeClip (MakeDay (if s ! 0 = 45 then - y else y) (m - 1) 1) else None)
      else None)"

record MonthRange =
  startISO :: jstring
  endISO :: jstring
  displayMonth :: number
  displayYear :: number

definition calculateMonthRange :: "int \<Rightarrow> number \<Rightarrow> error + MonthRange" where
  \<comment> \<open>\<open>now\<close> is the day number of \<open>new Date()\<close>\<close>
  "calculateMonthRange now offset =
     (let first = DateUTC (getUTCFullYear (Some now)) (plus (getUTCMonth (Some now)) offset)
                    (Some 1);
          last = DateUTC (getUTCFullYear first) (plus (getUTCMonth first) (Some 1)) (Some 0)
      in case toISOString first of
           Inl e \<Rightarrow> Inl e
         | Inr s \<Rightarrow>
             (case toISOString last of
                Inl e \<Rightarrow> Inl e
              | Inr t \<Rightarrow>
                  Inr \<lparr>startISO = take 10 s, endISO = take 10 t,
                       displayMonth = plus (getUTCMonth first) (Some 1),
                       displayYear = getUTCFullYear first\<rparr>))"

text \<open>
  The loop of \<open>computeAvailableDays\<close>: while \<open>d <= end\<close>, push the date of \<open>d\<close> and move
  \<open>d\<close> on by \<open>setUTCDate(getUTCDate() + 1)\<close>. When that leaves the range of time values
  \<open>d\<close> becomes invalid and the comparison fails.
\<close>

function allDates :: "int \<Rightarrow> int \<Rightarrow> jstring list" where
  "allDates d e =
     (if d \<le> e
      then take 10 (isoString d) #
           (case setUTCDate d (plus (getUTCDate (Some d)) (Some 1)) of
              None \<Rightarrow> []
            | Some d' \<Rightarrow> allDates d' e)
      else [])"
  by pat_completeness auto
termination
proof (relation "measure (\<lambda>(d, e). nat (e - d + 1))")
  show "wf (measure (\<lambda>(d, e). nat (e - d + 1)))" by simp
next
  fix d e d' :: int
  assume "d \<le> e" and "setUTCDate d (plus (getUTCDate (Some d)) (Some 1)) = Some d'"
  then show "((d', e), (d, e)) \<in> measure (\<lambda>(d, e). nat (e - d + 1))"
    by (auto simp: setUTCDate_next TimeClip_def split: if_splits)
qed

declare allDates.simps [simp del]

record DisabledDateRecord =
  date :: "jstring option"

definition computeAvailableDays :: "DisabledDateRecord list \<Rightarrow> MonthRange \<Rightarrow> jstring list" where
  \<comment> \<open>the entries of the response are objects whose \<open>date\<close>, where present, is a string;
      \<open>None\<close> in the mapped list is \<open>null\<close>, and \<open>filter(Boolean)\<close> drops \<open>null\<close> and the
      empty string\<close>
  "computeAvailableDays disabledDates rng =
     (let all = (case (Date_parse (startISO rng @ str ''T00:00:00.000Z''),
                       Date_parse (endISO rng @ str ''T00:00:00.000Z'')) of
                   (Some d, Some e) \<Rightarrow> allDates d e
                 | _ \<Rightarrow> []);
          disabledSet = set (filter (\<lambda>v. v \<noteq> None \<and> v \<noteq> Some [])
                          (map (\<lambda>x. case date x of
                                       None \<Rightarrow> None
                                     | Some s \<Rightarrow> if s = [] then None else Some (take 10 s))
                             disabledDates))
      in filter (\<lambda>dateISO. Some dateISO \<notin> disabledSet) all)"

section \<open>The store, the remote services and the trace\<close>

text \<open>
  The worker runs against a key-value store and three remote endpoints. The store is a
  map from keys to strings. What the endpoints answer is not in the worker's hands: it is
  given by the environment, the answer to the \<open>n\<close>-th request of each kind. A request
  either throws (a network error) or resolves to a response with a status, a body text
  and the outcome of parsing the body as JSON. Every write to the store, every request
  and every console message is appended to a trace, so that their order can be stated.

  Left out: the expiry of stored keys, errors of the store itself, and the URL, headers
  and cookie of a request, which are built without effect. The credential is carried as
  the text the store keeps of it, and a stored credential is taken to be an object. The
  clock is read as one value throughout a cycle: \<open>now\<close> is the day number of
  \<open>new Date()\<close> and \<open>clock\<close> the text of \<open>timestamp()\<close>. The digest of a string is the
  platform's; \<open>digest\<close> gives its bytes.
\<close>

type_synonym AuthCookie = jstring

datatype 'a reply =
    NetworkError error
  | Response nat jstring "error + 'a"

record Env =
  TARGET_MONTH_OFFSET :: "jstring option"
  now :: int
  clock :: jstring
  loginReply :: "nat \<Rightarrow> AuthCookie reply"
  datesReply :: "nat \<Rightarrow> DisabledDateRecord list reply"
  telegramReply :: "nat \<Rightarrow> unit reply"
  digest :: "jstring \<Rightarrow> nat list"

datatype event =
    KvPut string jstring
  | KvDelete string
  | LoginRequest
  | DatesRequest
  | TelegramRequest jstring
  | ConsoleLog string
  | ConsoleError string

record state =
  kv :: "string \<rightharpoonup> jstring"
  trace :: "event list"

definition emit :: "event \<Rightarrow> state \<Rightarrow> state" where
  "emit ev s = s\<lparr>trace := trace s @ [ev]\<rparr>"

definition KV_put :: "string \<Rightarrow> jstring \<Rightarrow> state \<Rightarrow> state" where
  "KV_put k v s = emit (KvPut k v) (s\<lparr>kv := (kv s)(k \<mapsto> v)\<rparr>)"

definition KV_delete :: "string \<Rightarrow> state \<Rightarrow> state" where
  "KV_delete k s = emit (KvDelete k) (s\<lparr>kv := (kv s)(k := None)\<rparr>)"

definition requests :: "event \<Rightarrow> state \<Rightarrow> nat" where
  \<comment> \<open>how many times the event stands in the trace\<close>
  "requests ev s = length (filter (\<lambda>x. x = ev) (trace s))"

fun telegramText :: "event \<Rightarrow> jstring option" where
  "telegramText (TelegramRequest t) = Some t"
| "telegramText _ = None"

definition sent :: "state \<Rightarrow> jstring list" where
  \<comment> \<open>the texts posted to the messaging bot, in order\<close>
  "sent s = List.map_filter telegramText (trace s)"

definition ok :: "nat \<Rightarrow> bool" where
  \<comment> \<open>\<open>res.ok\<close>\<close>
  "ok st = (200 \<le> st \<and> st \<le> 299)"

definition timestamp :: "Env \<Rightarrow> jstring" where
  "timestamp env = clock env"

fun join :: "jstring \<Rightarrow> jstring list \<Rightarrow> jstring" where
  "join sep [] = []"
| "join sep [x] = x"
| "join sep (x # y # ys) = x @ sep @ join sep (y # ys)"

fun hexDigits :: "nat \<Rightarrow> jstring" where
  \<comment> \<open>\<open>b.toString(16)\<close>\<close>
  "hexDigits n =
     (if n < 16 then [if n < 10 then 48 + n else 87 + n]
      else hexDigits (n div 16) @ [if n mod 16 < 10 then 48 + n mod 16 else 87 + n mod 16])"

declare hexDigits.simps [simp del]

definition sha256Hex :: "Env \<Rightarrow> jstring \<Rightarrow> jstring" where
  \<comment> \<open>the digest itself is the platform's, \<open>digest env\<close>: the bytes of the SHA-256 of the
      encoded string\<close>
  "sha256Hex env data = concat (map (\<lambda>b. padStart 2 (hexDigits b)) (digest env data))"

section \<open>Telegram\<close>

definition sendTelegram :: "Env \<Rightarrow> jstring \<Rightarrow> state \<Rightarrow> (error + unit) \<times> state" where
  "sendTelegram env text s =
     (if text = [] then (Inr (), s)
      else let n = length (sent s); s1 = emit (TelegramRequest text) s
           in case telegramReply env n of
                NetworkError e \<Rightarrow> (Inl e, s1)
              | Response st body js \<Rightarrow>
                  if \<not> ok st then (Inr (), emit (ConsoleError ''Telegram send failed'') s1)
                  else (Inr (), s1))"

section \<open>Authentication\<close>

definition login :: "Env \<Rightarrow> state \<Rightarrow> (error + AuthCookie) \<times> state" where
  "login env s =
     (let s0 = emit (ConsoleLog ''Authenticating...'') s;
          n = requests LoginRequest s0;
          s1 = emit LoginRequest s0
      in case loginReply env n of
           NetworkError e \<Rightarrow> (Inl e, s1)
         | Response st body js \<Rightarrow>
             if \<not> ok st
             then (Inl (Error (str ''Login failed: '' @ toString (Some (int st))
                               @ str '' '' @ body)), s1)
             else (case js of
                     Inl e \<Rightarrow> (Inl e, s1)
                   | Inr json \<Rightarrow>
                       (Inr json,
                        KV_put ''Last_auth'' (timestamp env) (KV_put ''Cookie'' json s1))))"

definition ensureAuth :: "Env \<Rightarrow> state \<Rightarrow> (error + AuthCookie) \<times> state" where
  "ensureAuth env s =
     (case kv s ''Cookie'' of
        None \<Rightarrow> login env s
      | Some cookie \<Rightarrow> (Inr cookie, s))"

section \<open>Fetching the dates\<close>

text \<open>
  \<open>fetchAvailableDates\<close> calls itself after a 401 or 403. The first argument bounds the
  depth of these calls; \<open>None\<close> says that the bound was too small, so that a run which
  never returns is the run that is \<open>None\<close> for every bound.
\<close>

fun fetchAvailableDates ::
  "nat \<Rightarrow> Env \<Rightarrow> AuthCookie \<Rightarrow> state \<Rightarrow> ((error + jstring list \<times> MonthRange) \<times> state) option"
where
  "fetchAvailableDates 0 env cookie s = None"
| "fetchAvailableDates (Suc fuel) env cookie s =
     (let monthOffset = parseInt (orElse (TARGET_MONTH_OFFSET env) (str ''0''))
      in case calculateMonthRange (now env) monthOffset of
           Inl e \<Rightarrow> Some (Inl e, s)
         | Inr rng \<Rightarrow>
             (let n = requests DatesRequest s; s1 = emit DatesRequest s
              in case datesReply env n of
                   NetworkError e \<Rightarrow> Some (Inl e, s1)
                 | Response st body js \<Rightarrow>
                     if st = 401 \<or> st = 403
                     then (let s2 = KV_delete ''Cookie''
                                      (emit (ConsoleLog ''Auth token expired, re-authenticating...'') s1)
                           in case login env s2 of
                                (Inl e, s3) \<Rightarrow> Some (Inl e, s3)
                              | (Inr newCookie, s3) \<Rightarrow> fetchAvailableDates fuel env newCookie s3)
                     else if \<not> ok st
                     then Some (Inl (Error (str ''Dates fetch failed: '' @ toString (Some (int st)))),
                                KV_put ''Last'' (toString (Some (int st)) @ str '':'' @ timestamp env) s1)
                     else (let s2 = KV_put ''Last'' (str ''200:'' @ timestamp env) s1
                           in case js of
                                Inl e \<Rightarrow> Some (Inl e, s2)
                              | Inr disabledList \<Rightarrow>
                                  Some (Inr (computeAvailableDays disabledList rng, rng), s2))))"

section \<open>Notification\<close>

definition buildDatesMessage :: "jstring list \<Rightarrow> MonthRange \<Rightarrow> jstring" where
  "buildDatesMessage dates rng =
     (let header = [9989] @ str '' Free dates for '' @ pad2 (displayMonth rng) @ str ''/''
                   @ toString (displayYear rng) @ str '':'';
          list = join [10] (map (\<lambda>d. [8226] @ str '' '' @ d) (take 15 dates));
          extra = (if length dates > 15
                   then [10, 8230] @ str ''(+'' @ toString (Some (int (length dates) - 15))
                        @ str '' more)''
                   else [])
      in header @ [10] @ list @ extra)"

definition maybeNotifyNewDates ::
  "Env \<Rightarrow> jstring list \<Rightarrow> MonthRange \<Rightarrow> state \<Rightarrow> (error + unit) \<times> state" where
  "maybeNotifyNewDates env dates rng s =
     (let hash = sha256Hex env (join (str '','') dates);
          lastHash = kv s ''Last_dates''
      in if Some hash = lastHash
         then (Inr (), emit (ConsoleLog ''Dates unchanged; notification suppressed.'') s)
         else (let s1 = KV_put ''Last_dates'' hash s;
                   message = buildDatesMessage dates rng
               in sendTelegram env message s1))"

section \<open>Failure handling\<close>

definition remainder :: "number \<Rightarrow> int \<Rightarrow> number" where
  \<comment> \<open>\<open>a % b\<close>: the sign of the result is the sign of \<open>a\<close>\<close>
  "remainder a b =
     (case a of None \<Rightarrow> None
      | Some x \<Rightarrow> if b = 0 then None else Some (sgn x * (\<bar>x\<bar> mod \<bar>b\<bar>)))"

definition recordFailureAndMaybeNotify :: "Env \<Rightarrow> error \<Rightarrow> state \<Rightarrow> (error + unit) \<times> state" where
  "recordFailureAndMaybeNotify env err s =
     (let prev = parseInt (orElse (kv s ''fail_count'') (str ''0''));
          current = plus prev (Some 1);
          s1 = KV_put ''fail_count'' (toString current) s;
          msg = (case err of Error m \<Rightarrow> m);
          lastErrMsg = kv s1 ''last_error_msg''
      in if lastErrMsg \<noteq> Some msg
         then sendTelegram env
                ([10071] @ str '' Error: '' @ truncate_msg msg 300 @ str '' (fail #''
                 @ toString current @ str '')'')
                (KV_put ''last_error_msg'' msg s1)
         else if current = Some 3 \<or> current = Some 5 \<or> remainder current 10 = Some 0
         then sendTelegram env
                ([9888, 65039] @ str '' Still failing ('' @ toString current @ str '' times): ''
                 @ truncate_msg msg 200)
                s1
         else (Inr (), s1))"

definition resetFailureCount :: "state \<Rightarrow> state" where
  "resetFailureCount s = KV_delete ''last_error_msg'' (KV_put ''fail_count'' (str ''0'') s)"

section \<open>Orchestration\<close>

definition runCheck_try :: "nat \<Rightarrow> Env \<Rightarrow> state \<Rightarrow> ((error + unit) \<times> state) option" where
  \<comment> \<open>the \<open>try\<close> block of \<open>runCheck\<close>\<close>
  "runCheck_try fuel env s =
     (case ensureAuth env s of
        (Inl e, s1) \<Rightarrow> Some (Inl e, s1)
      | (Inr cookie, s1) \<Rightarrow>
          (case fetchAvailableDates fuel env cookie s1 of
             None \<Rightarrow> None
           | Some (Inl e, s2) \<Rightarrow> Some (Inl e, s2)
           | Some (Inr (availableDates, monthRange), s2) \<Rightarrow>
               if length availableDates > 0
               then (case maybeNotifyNewDates env availableDates monthRange s2 of
                       (Inl e, s3) \<Rightarrow> Some (Inl e, s3)
                     | (Inr u, s3) \<Rightarrow> Some (Inr (), resetFailureCount s3))
               else Some (Inr (),
                          KV_put ''Last'' (str ''200:'' @ timestamp env) (resetFailureCount s2))))"

definition runCheck :: "nat \<Rightarrow> Env \<Rightarrow> state \<Rightarrow> ((error + unit) \<times> state) option" where
  \<comment> \<open>\<open>Inl\<close> is an error that \<open>runCheck\<close> raises to its caller\<close>
  "runCheck fuel env s =
     (case runCheck_try fuel env s of
        None \<Rightarrow> None
      | Some (Inr u, s1) \<Rightarrow> Some (Inr (), s1)
      | Some (Inl err, s1) \<Rightarrow>
          Some (recordFailureAndMaybeNotify env err (emit (ConsoleError ''runCheck error'') s1)))"

section \<open>What the claims speak of\<close>

text \<open>
  The escalation counts in the words of the specification: the count equals 3, equals 5,
  or is a multiple of 10.
\<close>

definition escalates :: "number \<Rightarrow> bool" where
  "escalates cur = (case cur of None \<Rightarrow> False | Some c \<Rightarrow> c = 3 \<or> c = 5 \<or> 10 dvd c)"

text \<open>
  A calendar date as the string \<open>YYYY-MM-DD\<close>, for a year from 0 to 9999 and a month from
  1 to 12.
\<close>

definition isoDate :: "int \<Rightarrow> int \<Rightarrow> int \<Rightarrow> jstring" where
  "isoDate y m d =
     padStart 4 (digits (nat y)) @ str ''-'' @ padStart 2 (digits (nat m)) @ str ''-''
     @ padStart 2 (digits (nat d))"

text \<open>
  The disabled days of a response: the first ten code units of the \<open>date\<close> of every record
  that has one.
\<close>

definition disabledDays :: "DisabledDateRecord list \<Rightarrow> jstring set" where
  "disabledDays recs = set (map (take 10) (List.map_filter date recs))"


text \<open>The message of an error, which the failure tracker records.\<close>

fun message :: "error \<Rightarrow> jstring" where
  "message (Error m) = m"

text \<open>
  An availability response that starts the retry: status 401 or 403.
\<close>

definition expired :: "'a reply \<Rightarrow> bool" where
  "expired rep = (case rep of NetworkError e \<Rightarrow> False | Response st body js \<Rightarrow> st = 401 \<or> st = 403)"

section \<open>Inputs\<close>

text \<open>
  The inputs at which the theorems are run. The current day is 2025-07-01 (day 20270), the
  month offset is not configured, and the response names 2025-07-01 and 2025-07-05 as
  disabled, once as a bare date, once with a time, beside a record without a date.
\<close>

definition july :: MonthRange where
  "july = \<lparr>startISO = str ''2025-07-01'', endISO = str ''2025-07-31'',
           displayMonth = Some 7, displayYear = Some 2025\<rparr>"

definition july_disabled :: "DisabledDateRecord list" where
  "july_disabled = [\<lparr>date = Some (str ''2025-07-01'')\<rparr>, \<lparr>date = None\<rparr>,
                    \<lparr>date = Some (str ''2025-07-05T00:00:00'')\<rparr>]"

definition july_available :: "jstring list" where
  "july_available = map (\<lambda>n. str ''2025-07-'' @ padStart 2 (digits n)) ([2, 3, 4] @ [6..<32])"

definition state_0 :: state where
  "state_0 = \<lparr>kv = Map.empty, trace = []\<rparr>"

definition state_a :: state where
  "state_a = \<lparr>kv = [''fail_count'' \<mapsto> str ''9'', ''last_error_msg'' \<mapsto> str ''Dates fetch failed: 500''],
              trace = []\<rparr>"

definition state_auth :: state where
  "state_auth = \<lparr>kv = [''Cookie'' \<mapsto> str ''{}'', ''Last_auth'' \<mapsto> str ''01.07.2025, 12:00:00''],
                 trace = [ConsoleLog ''Authenticating...'', LoginRequest,
                          KvPut ''Cookie'' (str ''{}''),
                          KvPut ''Last_auth'' (str ''01.07.2025, 12:00:00'')]\<rparr>"

definition state_fetched :: state where
  "state_fetched = \<lparr>kv = [''Cookie'' \<mapsto> str ''{}'', ''Last_auth'' \<mapsto> str ''01.07.2025, 12:00:00'',
                          ''Last'' \<mapsto> str ''200:01.07.2025, 12:00:00''],
                    trace = [ConsoleLog ''Authenticating...'', LoginRequest,
                             KvPut ''Cookie'' (str ''{}''),
                             KvPut ''Last_auth'' (str ''01.07.2025, 12:00:00''),
                             DatesRequest, KvPut ''Last'' (str ''200:01.07.2025, 12:00:00'')]\<rparr>"

definition env_ok :: Env where
  "env_ok = \<lparr>TARGET_MONTH_OFFSET = None, now = 20270, clock = str ''01.07.2025, 12:00:00'',
             loginReply = (\<lambda>n. Response 200 [] (Inr (str ''{}''))),
             datesReply = (\<lambda>n. Response 200 [] (Inr july_disabled)),
             telegramReply = (\<lambda>n. Response 200 [] (Inr ())),
             digest = (\<lambda>s. map (\<lambda>c. c mod 256) s)\<rparr>"

definition env_a :: Env where
  "env_a = env_ok\<lparr>datesReply := (\<lambda>n. Response 500 [] (Inl (Error [])))\<rparr>"

definition env_retry :: Env where
  "env_retry = env_ok\<lparr>datesReply :=
     (\<lambda>n. if n < 2 then Response 401 [] (Inl (Error [])) else Response 200 [] (Inr july_disabled))\<rparr>"

definition env_expired :: Env where
  "env_expired = env_ok\<lparr>datesReply := (\<lambda>n. Response 401 [] (Inl (Error [])))\<rparr>"

definition env_tg_500 :: Env where
  "env_tg_500 = env_ok\<lparr>telegramReply := (\<lambda>n. Response 500 [] (Inl (Error [])))\<rparr>"

definition env_tg_down :: Env where
  "env_tg_down = env_ok\<lparr>telegramReply :=
     (\<lambda>n. NetworkError (Error (str ''Network connection lost.'')))\<rparr>"

definition env_login_500 :: Env where
  "env_login_500 = env_ok\<lparr>loginReply := (\<lambda>n. Response 500 (str ''down'') (Inl (Error [])))\<rparr>"

section \<open>Digits\<close>

lemma digits_all_isDigit: "list_all isDigit (digits n)"
proof (induction n rule: digits.induct)
  case (1 n)
  have "isDigit (48 + n mod 10)" "n < 10 \<Longrightarrow> isDigit (48 + n)"
    by (simp_all add: isDigit_def)
  with 1 show ?case by (subst digits.simps) simp
qed

lemma digitsValue_snoc: "digitsValue (xs @ [c]) = 10 * digitsValue xs + (int c - 48)"
  by (simp add: digitsValue_def)

lemma digitsValue_digits: "digitsValue (digits n) = int n"
proof (induction n rule: digits.induct)
  case (1 n)
  show ?case
  proof (cases "n < 10")
    case True
    then show ?thesis by (subst digits.simps) (simp add: digitsValue_def)
  next
    case False
    then have "digitsValue (digits n) = 10 * int (n div 10) + int (n mod 10)"
      using 1 by (subst digits.simps) (simp add: digitsValue_snoc)
    then show ?thesis by (simp add: zdiv_int zmod_int)
  qed
qed

lemma foldl_zeros: "foldl (\<lambda>a c. 10 * a + (int c - 48)) 0 (replicate k 48) = 0"
  by (induction k) simp_all

lemma digitsValue_padStart: "digitsValue (padStart k xs) = digitsValue xs"
  by (simp add: digitsValue_def padStart_def foldl_zeros)

lemma padStart_all_isDigit: "list_all isDigit xs \<Longrightarrow> list_all isDigit (padStart k xs)"
  by (auto simp: padStart_def isDigit_def list_all_iff)

lemma length_digits: "0 < k \<Longrightarrow> n < 10 ^ k \<Longrightarrow> length (digits n) \<le> k"
proof (induction k arbitrary: n)
  case 0
  then show ?case by simp
next
  case (Suc k)
  show ?case
  proof (cases "n < 10")
    case True
    then show ?thesis by (subst digits.simps) simp
  next
    case False
    then have k: "0 < k" using Suc.prems by (cases k) auto
    have "n div 10 < 10 ^ k" using Suc.prems by (simp add: less_mult_imp_div_less mult.commute)
    then have "length (digits (n div 10)) \<le> k" using Suc.IH k by simp
    then show ?thesis using False by (subst digits.simps) simp
  qed
qed

lemma length_padStart: "length xs \<le> k \<Longrightarrow> length (padStart k xs) = k"
  by (simp add: padStart_def)

lemma length_pad4: "n \<le> 9999 \<Longrightarrow> length (padStart 4 (digits n)) = 4"
  using length_digits[of 4 n] by (intro length_padStart) simp

lemma length_pad2: "n \<le> 99 \<Longrightarrow> length (padStart 2 (digits n)) = 2"
  using length_digits[of 2 n] by (intro length_padStart) simp

section \<open>Dates as strings\<close>

lemma MakeDay_norm: "MakeDay y m dt = MakeDay (y + m div 12) (m mod 12) dt"
  by (simp add: MakeDay_def)

lemma MakeDay_shift: "MakeDay y m dt = MakeDay y m 1 + (dt - 1)"
  by (simp add: MakeDay_def Let_def)

lemma DaysInMonth_pos: "1 \<le> DaysInMonth y m"
  by (simp add: DaysInMonth_def)

lemma MakeDay_last:
  assumes "0 \<le> m" "m < 12"
  shows "MakeDay y (m + 1) 0 = MakeDay y m (DaysInMonth y (m + 1))"
proof (cases "m = 11")
  case True
  then show ?thesis
    by (simp add: MakeDay_def monthStart_def DaysInMonth_def DayFromYear_step DaysInYear_leap)
next
  case False
  then have d: "(m + 1) div 12 = 0" "(m + 1) mod 12 = m + 1" "m div 12 = 0" "m mod 12 = m"
    using assms by simp_all
  show ?thesis
    unfolding MakeDay_def d Let_def using month_cases[OF assms] False
    by (elim disjE; simp add: monthStart_def DaysInMonth_def DaysInYear_leap)
qed

lemma DayFromYear_0: "DayFromYear 0 = - 719528"
  by (simp add: DayFromYear_def)

lemma DayFromYear_10000: "DayFromYear 10000 = 2932897"
  by (simp add: DayFromYear_def)

lemma TimeClip_year:
  assumes "0 \<le> YearFromDay d" "YearFromDay d \<le> 9999"
  shows "TimeClip d = Some d" and "TimeClip (d + 1) = Some (d + 1)"
proof -
  have "DayFromYear 0 \<le> DayFromYear (YearFromDay d)"
    using assms by (intro DayFromYear_mono) simp
  moreover have "DayFromYear (YearFromDay d + 1) \<le> DayFromYear 10000"
    using assms by (intro DayFromYear_mono) simp
  ultimately have "- 719528 \<le> d" "d < 2932897"
    using YearFromDay_bounds[of d] by (simp_all add: DayFromYear_0 DayFromYear_10000)
  then show "TimeClip d = Some d" and "TimeClip (d + 1) = Some (d + 1)"
    by (simp_all add: TimeClip_def)
qed

lemma take10_isoString:
  assumes "0 \<le> YearFromDay d" "YearFromDay d \<le> 9999"
  shows "take 10 (isoString d) = isoDate (YearFromDay d) (MonthFromDay d + 1) (DateFromDay d)"
proof -
  have y: "length (padStart 4 (digits (nat (YearFromDay d)))) = 4"
    using assms by (intro length_pad4) arith
  have m: "length (padStart 2 (digits (nat (MonthFromDay d + 1)))) = 2"
    using MonthFromDay_range[of d] by (intro length_pad2) arith
  have "DaysInMonth (YearFromDay d) (MonthFromDay d + 1) \<le> 31" by (simp add: DaysInMonth_def)
  then have t: "length (padStart 2 (digits (nat (DateFromDay d)))) = 2"
    using DateFromDay_range[of d] by (intro length_pad2) arith
  show ?thesis
    using assms by (simp add: isoString_def isoDate_def Let_def y m t str_def)
qed

lemma year_day_bounds:
  assumes "0 \<le> YearFromDay d" "YearFromDay d \<le> 9999"
  shows "- 719528 \<le> d" "d < 2932897"
proof -
  have "DayFromYear 0 \<le> DayFromYear (YearFromDay d)"
    using assms by (intro DayFromYear_mono) simp
  moreover have "DayFromYear (YearFromDay d + 1) \<le> DayFromYear 10000"
    using assms by (intro DayFromYear_mono) simp
  ultimately show "- 719528 \<le> d" "d < 2932897"
    using YearFromDay_bounds[of d] by (simp_all add: DayFromYear_0 DayFromYear_10000)
qed

lemma allDates_upto:
  "- 719528 \<le> a \<Longrightarrow> b < 2932897 \<Longrightarrow> allDates a b = map (\<lambda>d. take 10 (isoString d)) [a..b]"
proof (induction a b rule: allDates.induct)
  case (1 d e)
  show ?case
  proof (cases "d \<le> e")
    case True
    have n: "setUTCDate d (plus (getUTCDate (Some d)) (Some 1)) = Some (d + 1)"
      using True 1(2,3) by (simp add: setUTCDate_next TimeClip_def)
    have "allDates (d + 1) e = map (\<lambda>d. take 10 (isoString d)) [d + 1..e]"
      using 1(1)[OF True n] 1(2,3) by simp
    then show ?thesis
      using True by (subst allDates.simps) (simp add: n upto_rec1)
  next
    case False
    then show ?thesis by (subst allDates.simps) simp
  qed
qed

lemma parse_shape:
  assumes "length Y = 4" "length M = 2" "length D = 2"
  shows "length (Y @ 45 # M @ 45 # D @ T) = 10 + length T"
    and "take 4 (Y @ 45 # M @ 45 # D @ T) = Y"
    and "(Y @ 45 # M @ 45 # D @ T) ! 4 = 45"
    and "take 2 (drop 5 (Y @ 45 # M @ 45 # D @ T)) = M"
    and "(Y @ 45 # M @ 45 # D @ T) ! 7 = 45"
    and "take 2 (drop 8 (Y @ 45 # M @ 45 # D @ T)) = D"
    and "drop 10 (Y @ 45 # M @ 45 # D @ T) = T"
  using assms by (simp_all add: nth_append)

lemma Date_parse_iso:
  assumes "0 \<le> YearFromDay d" "YearFromDay d \<le> 9999"
  shows "Date_parse (take 10 (isoString d) @ str ''T00:00:00.000Z'') = Some d"
proof -
  define Y where "Y = padStart 4 (digits (nat (YearFromDay d)))"
  define M where "M = padStart 2 (digits (nat (MonthFromDay d + 1)))"
  define D where "D = padStart 2 (digits (nat (DateFromDay d)))"
  define T where "T = str ''T00:00:00.000Z''"
  have dim: "DaysInMonth (YearFromDay d) (MonthFromDay d + 1) \<le> 31" by (simp add: DaysInMonth_def)
  have lY: "length Y = 4" unfolding Y_def using assms by (intro length_pad4) arith
  have lM: "length M = 2" unfolding M_def using MonthFromDay_range[of d] by (intro length_pad2) arith
  have lD: "length D = 2" unfolding D_def using DateFromDay_range[of d] dim by (intro length_pad2) arith
  have s: "take 10 (isoString d) @ str ''T00:00:00.000Z'' = Y @ 45 # M @ 45 # D @ T"
    using take10_isoString[OF assms] by (simp add: isoDate_def Y_def M_def D_def T_def str_def)
  have dg: "list_all isDigit Y" "list_all isDigit M" "list_all isDigit D"
    by (simp_all add: Y_def M_def D_def padStart_all_isDigit digits_all_isDigit)
  have vY: "digitsValue Y = YearFromDay d"
    using assms by (simp add: Y_def digitsValue_padStart digitsValue_digits)
  have vM: "digitsValue M = MonthFromDay d + 1"
    using MonthFromDay_range[of d] by (simp add: M_def digitsValue_padStart digitsValue_digits)
  have vD: "digitsValue D = DateFromDay d"
    using DateFromDay_range[of d] by (simp add: D_def digitsValue_padStart digitsValue_digits)
  have lT: "length T = 14" by (simp add: T_def str_def)
  have "Date_parse (Y @ 45 # M @ 45 # D @ T) = TimeClip d"
    unfolding Date_parse_def parse_shape[OF lY lM lD] vY vM vD T_def[symmetric]
    using dg lT MonthFromDay_range[of d] DateFromDay_range[of d] dim
    by (simp add: MakeDay_civil)
  then show ?thesis using TimeClip_year(1)[OF assms] s by simp
qed

section \<open>The month range and the available days, in general\<close>

lemma calculateMonthRange_eq:
  fixes today k :: int
  defines "tot \<equiv> MonthFromDay today + k"
  defines "ym \<equiv> YearFromDay today + tot div 12" and "mn \<equiv> tot mod 12"
  assumes now: "\<not> (0 \<le> YearFromDay today \<and> YearFromDay today \<le> 99)"
    and ym: "100 \<le> ym" "ym \<le> 9999"
  shows "calculateMonthRange today (Some k) =
           Inr \<lparr>startISO = isoDate ym (mn + 1) 1,
                endISO = isoDate ym (mn + 1) (DaysInMonth ym (mn + 1)),
                displayMonth = Some (mn + 1), displayYear = Some ym\<rparr>"
proof -
  have mn: "0 \<le> mn" "mn < 12" by (simp_all add: mn_def)
  let ?F = "MakeDay ym mn 1" and ?L = "MakeDay ym mn (DaysInMonth ym (mn + 1))"
  have cF: "YearFromDay ?F = ym" "MonthFromDay ?F = mn" "DateFromDay ?F = 1"
    using civil_of_MakeDay[OF mn, of 1 ym] DaysInMonth_pos[of ym "mn + 1"] by simp_all
  have cL: "YearFromDay ?L = ym" "MonthFromDay ?L = mn" "DateFromDay ?L = DaysInMonth ym (mn + 1)"
    using civil_of_MakeDay[OF mn, of "DaysInMonth ym (mn + 1)" ym] DaysInMonth_pos[of ym "mn + 1"]
    by simp_all
  have "MakeDay (YearFromDay today) (MonthFromDay today + k) 1 = ?F"
    by (subst MakeDay_norm) (simp add: ym_def mn_def tot_def)
  then have first: "DateUTC (getUTCFullYear (Some today)) (plus (getUTCMonth (Some today)) (Some k)) (Some 1)
      = Some ?F"
    using now TimeClip_year(1)[of ?F] ym
    by (auto simp: DateUTC_def getUTCFullYear_def getUTCMonth_def plus_def cF)
  have last: "DateUTC (getUTCFullYear (Some ?F)) (plus (getUTCMonth (Some ?F)) (Some 1)) (Some 0)
      = Some ?L"
    using ym TimeClip_year(1)[of ?L] MakeDay_last[OF mn, of ym]
    by (auto simp: DateUTC_def getUTCFullYear_def getUTCMonth_def plus_def cF cL)
  have sF: "take 10 (isoString ?F) = isoDate ym (mn + 1) 1"
    using take10_isoString[of ?F] ym by (simp add: cF)
  have sL: "take 10 (isoString ?L) = isoDate ym (mn + 1) (DaysInMonth ym (mn + 1))"
    using take10_isoString[of ?L] ym by (simp add: cL)
  show ?thesis
    unfolding calculateMonthRange_def first Let_def last
    by (simp add: toISOString_def sF sL getUTCMonth_def getUTCFullYear_def plus_def cF)
qed

lemma disabledDays_iff:
  "x \<in> disabledDays recs \<longleftrightarrow> (\<exists>r s. r \<in> set recs \<and> date r = Some s \<and> take 10 s = x)"
  by (auto simp: disabledDays_def List.map_filter_def image_iff)

lemma disabled_member:
  assumes "x \<noteq> []"
  shows "Some x \<in> set (filter (\<lambda>v. v \<noteq> None \<and> v \<noteq> Some [])
            (map (\<lambda>r. case date r of None \<Rightarrow> None
                      | Some s \<Rightarrow> if s = [] then None else Some (take 10 s)) recs))
         \<longleftrightarrow> x \<in> disabledDays recs"
proof
  assume "Some x \<in> set (filter (\<lambda>v. v \<noteq> None \<and> v \<noteq> Some [])
            (map (\<lambda>r. case date r of None \<Rightarrow> None
                      | Some s \<Rightarrow> if s = [] then None else Some (take 10 s)) recs))"
  then obtain r where r: "r \<in> set recs"
    and e: "(case date r of None \<Rightarrow> None | Some s \<Rightarrow> if s = [] then None else Some (take 10 s)) = Some x"
    by auto
  from e obtain s where "date r = Some s" "take 10 s = x"
    by (auto split: option.splits if_splits)
  then show "x \<in> disabledDays recs" using r by (auto simp: disabledDays_iff)
next
  assume "x \<in> disabledDays recs"
  then obtain r s where r: "r \<in> set recs" "date r = Some s" "take 10 s = x"
    by (auto simp: disabledDays_iff)
  then have "s \<noteq> []" using assms by auto
  then have "(case date r of None \<Rightarrow> None | Some s \<Rightarrow> if s = [] then None else Some (take 10 s)) = Some x"
    using r by simp
  then show "Some x \<in> set (filter (\<lambda>v. v \<noteq> None \<and> v \<noteq> Some [])
            (map (\<lambda>r. case date r of None \<Rightarrow> None
                      | Some s \<Rightarrow> if s = [] then None else Some (take 10 s)) recs))"
    using r(1) assms by (auto simp: image_iff intro!: bexI[of _ r])
qed

lemma computeAvailableDays_eq:
  assumes a: "0 \<le> YearFromDay a" "YearFromDay a \<le> 9999"
    and b: "0 \<le> YearFromDay b" "YearFromDay b \<le> 9999"
    and rng: "startISO rng = take 10 (isoString a)" "endISO rng = take 10 (isoString b)"
  shows "computeAvailableDays recs rng =
           filter (\<lambda>x. x \<notin> disabledDays recs) (map (\<lambda>d. take 10 (isoString d)) [a..b])"
proof -
  have all: "allDates a b = map (\<lambda>d. take 10 (isoString d)) [a..b]"
    using year_day_bounds(1)[OF a] year_day_bounds(2)[OF b] by (rule allDates_upto)
  have ne: "x \<noteq> []" if "x \<in> set (map (\<lambda>d. take 10 (isoString d)) [a..b])" for x
  proof -
    from that obtain d where "x = take 10 (isoString d)" by auto
    then have "x = take 10 (isoString d)" and "10 \<le> length (isoString d)"
      by (simp_all add: isoString_def Let_def str_def)
    then show ?thesis by auto
  qed
  show ?thesis
    unfolding computeAvailableDays_def rng Date_parse_iso[OF a] Date_parse_iso[OF b] Let_def
    by (simp add: all) (rule filter_cong, simp, use ne disabled_member in auto)
qed

lemma month_days:
  assumes y: "0 \<le> y" "y \<le> 9999" and m: "0 \<le> m" "m < 12"
  shows "map (\<lambda>d. take 10 (isoString d)) [MakeDay y m 1..MakeDay y m (DaysInMonth y (m + 1))]
         = map (isoDate y (m + 1)) [1..DaysInMonth y (m + 1)]"
proof (rule nth_equalityI)
  let ?n = "DaysInMonth y (m + 1)"
  have n: "1 \<le> ?n" by (rule DaysInMonth_pos)
  show len: "length (map (\<lambda>d. take 10 (isoString d)) [MakeDay y m 1..MakeDay y m ?n])
      = length (map (isoDate y (m + 1)) [1..?n])"
    by (simp add: MakeDay_shift[of y m ?n])
  fix i
  assume "i < length (map (\<lambda>d. take 10 (isoString d)) [MakeDay y m 1..MakeDay y m ?n])"
  then have i: "int i < ?n" using n by (simp add: MakeDay_shift[of y m ?n])
  have c: "YearFromDay (MakeDay y m (1 + int i)) = y \<and> MonthFromDay (MakeDay y m (1 + int i)) = m
      \<and> DateFromDay (MakeDay y m (1 + int i)) = 1 + int i"
    using i by (intro civil_of_MakeDay[OF m]) simp_all
  have a': "MakeDay y m 1 + int i = MakeDay y m (1 + int i)"
    by (simp add: MakeDay_shift[of y m "1 + int i"])
  have "[MakeDay y m 1..MakeDay y m 1 + (?n - 1)] ! i = MakeDay y m 1 + int i"
    using i by (intro nth_upto) simp
  then have a: "[MakeDay y m 1..MakeDay y m ?n] ! i = MakeDay y m (1 + int i)"
    using MakeDay_shift[of y m ?n] a' by simp
  have b: "[1..?n] ! i = 1 + int i" using i by simp
  have "take 10 (isoString (MakeDay y m (1 + int i))) = isoDate y (m + 1) (1 + int i)"
    using take10_isoString[of "MakeDay y m (1 + int i)"] c y by simp
  then show "map (\<lambda>d. take 10 (isoString d)) [MakeDay y m 1..MakeDay y m ?n] ! i
      = map (isoDate y (m + 1)) [1..?n] ! i"
    using i n a b by (simp add: MakeDay_shift[of y m ?n] a')
qed

lemma computeAvailableDays_month:
  assumes y: "0 \<le> y" "y \<le> 9999" and m: "1 \<le> m" "m \<le> 12"
    and rng: "startISO rng = isoDate y m 1" "endISO rng = isoDate y m (DaysInMonth y m)"
  shows "computeAvailableDays recs rng =
           filter (\<lambda>x. x \<notin> disabledDays recs) (map (isoDate y m) [1..DaysInMonth y m])"
proof -
  have m': "0 \<le> m - 1" "m - 1 < 12" using m by simp_all
  let ?a = "MakeDay y (m - 1) 1" and ?b = "MakeDay y (m - 1) (DaysInMonth y m)"
  have ca: "YearFromDay ?a = y \<and> MonthFromDay ?a = m - 1 \<and> DateFromDay ?a = 1"
    using DaysInMonth_pos[of y m] by (intro civil_of_MakeDay[OF m']) simp_all
  have cb: "YearFromDay ?b = y \<and> MonthFromDay ?b = m - 1 \<and> DateFromDay ?b = DaysInMonth y m"
    using DaysInMonth_pos[of y m] by (intro civil_of_MakeDay[OF m']) simp_all
  have sa: "startISO rng = take 10 (isoString ?a)"
    using take10_isoString[of ?a] ca y rng by simp
  have sb: "endISO rng = take 10 (isoString ?b)"
    using take10_isoString[of ?b] cb y rng by simp
  have "computeAvailableDays recs rng =
      filter (\<lambda>x. x \<notin> disabledDays recs) (map (\<lambda>d. take 10 (isoString d)) [?a..?b])"
    using ca cb y by (intro computeAvailableDays_eq sa sb) simp_all
  then show ?thesis using month_days[OF y m'] by simp
qed

section \<open>Effects of the store and of a send\<close>

lemma sent_emit:
  "sent (emit ev s) = sent s @ (case telegramText ev of None \<Rightarrow> [] | Some t \<Rightarrow> [t])"
  by (simp add: sent_def emit_def List.map_filter_def split: option.splits)

lemma sent_KV_put: "sent (KV_put k v s) = sent s"
  by (simp add: KV_put_def sent_def emit_def List.map_filter_def)

lemma sent_KV_delete: "sent (KV_delete k s) = sent s"
  by (simp add: KV_delete_def sent_def emit_def List.map_filter_def)

lemma kv_emit: "kv (emit ev s) = kv s"
  by (simp add: emit_def)

lemma kv_KV_put: "kv (KV_put k v s) = (kv s)(k \<mapsto> v)"
  by (simp add: KV_put_def emit_def)

lemma kv_KV_delete: "kv (KV_delete k s) = (kv s)(k := None)"
  by (simp add: KV_delete_def emit_def)

lemma trace_emit: "trace (emit ev s) = trace s @ [ev]"
  by (simp add: emit_def)

lemma trace_KV_put: "trace (KV_put k v s) = trace s @ [KvPut k v]"
  by (simp add: KV_put_def emit_def)

lemma trace_KV_delete: "trace (KV_delete k s) = trace s @ [KvDelete k]"
  by (simp add: KV_delete_def emit_def)

lemma requests_emit: "requests ev (emit e s) = requests ev s + (if e = ev then 1 else 0)"
  by (simp add: requests_def emit_def)

lemma requests_KV_put: "requests DatesRequest (KV_put k v s) = requests DatesRequest s"
  by (simp add: requests_def KV_put_def emit_def)

lemma requests_KV_delete: "requests DatesRequest (KV_delete k s) = requests DatesRequest s"
  by (simp add: requests_def KV_delete_def emit_def)

lemma requests_login: "requests DatesRequest (snd (login env s)) = requests DatesRequest s"
  by (simp add: login_def Let_def requests_emit requests_KV_put split: reply.splits sum.splits)

lemma sendTelegram_sent:
  "sent (snd (sendTelegram env text s)) = sent s @ (if text = [] then [] else [text])"
  by (simp add: sendTelegram_def Let_def sent_emit split: reply.splits)

lemma sendTelegram_kv: "kv (snd (sendTelegram env text s)) = kv s"
  by (simp add: sendTelegram_def Let_def kv_emit split: reply.splits)

lemma sendTelegram_result:
  "text \<noteq> [] \<Longrightarrow>
   sendTelegram env text s =
     (case telegramReply env (length (sent s)) of
        NetworkError e \<Rightarrow> (Inl e, emit (TelegramRequest text) s)
      | Response st body js \<Rightarrow>
          (Inr (), if ok st then emit (TelegramRequest text) s
                   else emit (ConsoleError ''Telegram send failed'')
                          (emit (TelegramRequest text) s)))"
  by (simp add: sendTelegram_def Let_def split: reply.splits)

lemma sendTelegram_trace:
  "\<exists>rest. trace (snd (sendTelegram env text s))
      = trace s @ (if text = [] then [] else [TelegramRequest text]) @ rest"
  by (simp add: sendTelegram_def Let_def trace_emit split: reply.splits)

lemma sendTelegram_raises:
  "fst (sendTelegram env text s) = Inl e \<Longrightarrow> telegramReply env (length (sent s)) = NetworkError e"
  by (auto simp: sendTelegram_def Let_def split: if_splits reply.splits)

section \<open>The notifier and the failure tracker, in general\<close>



lemma buildDatesMessage_nonempty: "buildDatesMessage dates rng \<noteq> []"
  by (simp add: buildDatesMessage_def Let_def)


lemma maybeNotify_kv:
  "kv (snd (maybeNotifyNewDates env dates rng s)) ''Last_dates''
     = Some (sha256Hex env (join (str '','') dates))"
  by (simp add: maybeNotifyNewDates_def Let_def kv_emit sendTelegram_kv kv_KV_put)

lemma maybeNotify_sent:
  "sent (snd (maybeNotifyNewDates env dates rng s)) =
     sent s @ (if kv s ''Last_dates'' = Some (sha256Hex env (join (str '','') dates)) then []
               else [buildDatesMessage dates rng])"
  by (auto simp: maybeNotifyNewDates_def Let_def sent_emit sendTelegram_sent sent_KV_put
      buildDatesMessage_nonempty)

lemma kv_resetFailureCount:
  "kv (resetFailureCount s) = (kv s)(''fail_count'' \<mapsto> str ''0'', ''last_error_msg'' := None)"
  by (simp add: resetFailureCount_def kv_KV_put kv_KV_delete)

lemma remainder_10: "remainder (Some c) 10 = Some 0 \<longleftrightarrow> 10 dvd c"
proof -
  have "\<bar>c\<bar> mod 10 = 0 \<longleftrightarrow> 10 dvd c" by (simp add: dvd_eq_mod_eq_0[symmetric])
  moreover have "c = 0 \<Longrightarrow> 10 dvd c" by simp
  ultimately show ?thesis by (auto simp: remainder_def sgn_if)
qed

lemma escalates_iff:
  "escalates cur \<longleftrightarrow> (cur = Some 3 \<or> cur = Some 5 \<or> remainder cur 10 = Some 0)"
  by (cases cur) (auto simp: escalates_def remainder_10, simp add: remainder_def)

lemma truncate_msg_props:
  assumes "3 \<le> n"
  shows "length (truncate_msg m (int n)) \<le> n"
    and "length m \<le> n \<Longrightarrow> truncate_msg m (int n) = m"
    and "n < length m \<Longrightarrow> length (truncate_msg m (int n)) = n
           \<and> take (n - 3) (truncate_msg m (int n)) = take (n - 3) m
           \<and> drop (n - 3) (truncate_msg m (int n)) = str ''...''"
  using assms by (auto simp: truncate_msg_def slice0_def str_def nat_diff_distrib)

lemma recordFailure_new:
  fixes env :: Env and s :: state and msg :: jstring
  assumes "kv s ''last_error_msg'' \<noteq> Some msg"
  defines "cur \<equiv> plus (parseInt (orElse (kv s ''fail_count'') (str ''0''))) (Some 1)"
  defines "s' \<equiv> snd (recordFailureAndMaybeNotify env (Error msg) s)"
  shows "sent s' = sent s @ [[10071] @ str '' Error: '' @ truncate_msg msg 300 @ str '' (fail #'' @ toString cur @ str '')'']"
    and "kv s' = (kv s)(''fail_count'' \<mapsto> toString cur, ''last_error_msg'' \<mapsto> msg)"
  using assms(1) unfolding s'_def cur_def
  by (simp_all add: recordFailureAndMaybeNotify_def Let_def kv_KV_put sendTelegram_sent sendTelegram_kv sent_KV_put)

lemma recordFailure_same:
  fixes env :: Env and s :: state and msg :: jstring
  assumes "kv s ''last_error_msg'' = Some msg"
  defines "cur \<equiv> plus (parseInt (orElse (kv s ''fail_count'') (str ''0''))) (Some 1)"
  defines "s' \<equiv> snd (recordFailureAndMaybeNotify env (Error msg) s)"
  shows "sent s' = sent s @ (if cur = Some 3 \<or> cur = Some 5 \<or> remainder cur 10 = Some 0
            then [[9888, 65039] @ str '' Still failing ('' @ toString cur @ str '' times): '' @ truncate_msg msg 200] else [])"
    and "kv s' = (kv s)(''fail_count'' \<mapsto> toString cur)"
  using assms(1) unfolding s'_def cur_def
  by (simp_all add: recordFailureAndMaybeNotify_def Let_def kv_KV_put sendTelegram_sent sendTelegram_kv sent_KV_put)

lemma recordFailure_fail_count:
  "kv (snd (recordFailureAndMaybeNotify env err s)) ''fail_count''
     = Some (toString (plus (parseInt (orElse (kv s ''fail_count'') (str ''0''))) (Some 1)))"
  by (simp add: recordFailureAndMaybeNotify_def Let_def sendTelegram_kv kv_KV_put)

lemma recordFailure_raises:
  assumes "fst (recordFailureAndMaybeNotify env err s) = Inl e"
  shows "telegramReply env (length (sent s)) = NetworkError e"
proof -
  have a: "length (sent (KV_put k v (KV_put k' v' s))) = length (sent s)" for k v k' v'
    by (simp add: sent_KV_put)
  have b: "length (sent (KV_put k v s)) = length (sent s)" for k v
    by (simp add: sent_KV_put)
  show ?thesis
    using assms sendTelegram_raises[of env _ "KV_put _ _ (KV_put _ _ s)" e]
      sendTelegram_raises[of env _ "KV_put _ _ s" e]
    by (auto simp: recordFailureAndMaybeNotify_def Let_def a b split: if_splits)
qed

lemma recordFailure_last_error:
  "kv (snd (recordFailureAndMaybeNotify env err s)) ''last_error_msg'' = Some (message err)"
proof (cases err)
  case (Error m)
  show ?thesis
  proof (cases "kv s ''last_error_msg'' = Some m")
    case True
    then show ?thesis using recordFailure_same(2)[OF True, of env] Error by simp
  next
    case False
    then show ?thesis using recordFailure_new(2)[OF False, of env] Error by simp
  qed
qed

lemma recordFailure_trace_first:
  "\<exists>rest. trace (snd (recordFailureAndMaybeNotify env err s)) =
      trace s @ KvPut ''fail_count''
        (toString (plus (parseInt (orElse (kv s ''fail_count'') (str ''0''))) (Some 1))) # rest"
proof -
  have a: "\<exists>rest. trace (snd (sendTelegram env t (KV_put k v (KV_put k' v' s))))
      = trace s @ KvPut k' v' # rest" for t k v k' v'
    using sendTelegram_trace[of env t "KV_put k v (KV_put k' v' s)"]
    by (auto simp: trace_KV_put)
  have b: "\<exists>rest. trace (snd (sendTelegram env t (KV_put k v s))) = trace s @ KvPut k v # rest"
    for t k v
    using sendTelegram_trace[of env t "KV_put k v s"]
    by (auto simp: trace_KV_put)
  show ?thesis
    by (simp add: recordFailureAndMaybeNotify_def Let_def a b trace_KV_put)
qed

lemma runCheck_caught:
  assumes "runCheck_try fuel env s = Some (Inl e, s1)"
  shows "runCheck fuel env s =
     Some (recordFailureAndMaybeNotify env e (emit (ConsoleError ''runCheck error'') s1))"
  using assms by (simp add: runCheck_def)

lemma runCheck_raises_only:
  assumes "runCheck fuel env s = Some (Inl e', s')"
  shows "\<exists>e s1. runCheck_try fuel env s = Some (Inl e, s1)
           \<and> recordFailureAndMaybeNotify env e (emit (ConsoleError ''runCheck error'') s1) = (Inl e', s')
           \<and> telegramReply env (length (sent s1)) = NetworkError e'"
proof (cases "runCheck_try fuel env s")
  case None
  then show ?thesis using assms by (simp add: runCheck_def)
next
  case (Some p)
  obtain q s1 where p: "p = (q, s1)" by (cases p)
  show ?thesis
  proof (cases q)
    case (Inr u)
    then show ?thesis using assms Some p by (auto simp: runCheck_def)
  next
    case (Inl e)
    let ?s = "emit (ConsoleError ''runCheck error'') s1"
    have rs: "recordFailureAndMaybeNotify env e ?s = (Inl e', s')"
      using assms Some p Inl by (simp add: runCheck_def)
    then have "fst (recordFailureAndMaybeNotify env e ?s) = Inl e'" by simp
    then have "telegramReply env (length (sent s1)) = NetworkError e'"
      using recordFailure_raises[of env e ?s e'] by (simp add: sent_emit)
    then show ?thesis using Some p Inl rs by simp
  qed
qed

section \<open>The depth of the retry\<close>

text \<open>
  A larger bound on the depth changes no result, and the fetch returns as soon as one
  availability response is not a 401 or 403: with \<open>k\<close> such responses before it, a bound
  of \<open>k + 1\<close> is enough.
\<close>

lemma fetch_fuel_mono:
  "fetchAvailableDates n env c s = Some r \<Longrightarrow> fetchAvailableDates (n + k) env c s = Some r"
proof (induction n arbitrary: c s)
  case 0
  then show ?case by simp
next
  case (Suc n)
  then show ?case
    by (auto simp: Let_def split: sum.splits reply.splits prod.splits if_splits)
qed

lemma fetch_returns:
  "\<not> expired (datesReply env (requests DatesRequest s + k)) \<Longrightarrow>
   \<exists>r. fetchAvailableDates (Suc k) env c s = Some r"
proof (induction k arbitrary: c s)
  case 0
  then show ?case
    by (auto simp: Let_def expired_def split: sum.splits reply.splits prod.splits)
next
  case (Suc k)
  have "\<exists>r. fetchAvailableDates (Suc k) env c' s' = Some r"
    if "requests DatesRequest s' = Suc (requests DatesRequest s)" for c' s'
    using Suc.prems that by (intro Suc.IH) simp
  then have ih: "\<exists>r. fetchAvailableDates (Suc k) env c'
        (snd (login env (KV_delete ''Cookie''
           (emit (ConsoleLog ''Auth token expired, re-authenticating...'') (emit DatesRequest s))))) = Some r"
    for c'
    by (simp add: requests_login requests_KV_delete requests_emit)
  show ?case
    using ih
    by (subst fetchAvailableDates.simps)
       (auto simp: Let_def split: sum.splits reply.splits prod.splits
          simp del: fetchAvailableDates.simps)
qed

section \<open>July 2025\<close>

lemmas eval_parse =
  str_def parseInt_def isWhiteSpace_def isDigit_def digitsValue_def orElse_def plus_def

lemmas eval_state =
  emit_def KV_put_def KV_delete_def requests_def login_def ok_def timestamp_def Let_def

lemmas eval_run =
  runCheck_def runCheck_try_def ensureAuth_def maybeNotifyNewDates_def sendTelegram_def
  recordFailureAndMaybeNotify_def resetFailureCount_def sent_def List.map_filter_def
  buildDatesMessage_nonempty eval_state

lemma parseInt_0: "parseInt (orElse None (str ''0'')) = Some 0"
  by (simp add: eval_parse)

lemma MakeDay_july: "MakeDay 2025 6 dt = 20269 + dt"
  by (simp add: MakeDay_def DayFromYear_def DaysInYear_def monthStart_def)

lemma july_civil:
  assumes "20270 \<le> d" "d \<le> 20300"
  shows "YearFromDay d = 2025" "MonthFromDay d = 6" "DateFromDay d = d - 20269"
proof -
  have "DaysInMonth 2025 7 = 31" by (simp add: DaysInMonth_def)
  then have "YearFromDay (MakeDay 2025 6 (d - 20269)) = 2025
      \<and> MonthFromDay (MakeDay 2025 6 (d - 20269)) = 6
      \<and> DateFromDay (MakeDay 2025 6 (d - 20269)) = d - 20269"
    using assms by (intro civil_of_MakeDay) simp_all
  then show "YearFromDay d = 2025" "MonthFromDay d = 6" "DateFromDay d = d - 20269"
    by (simp_all add: MakeDay_july)
qed

lemma digits_2025: "digits 2025 = str ''2025''"
  by (simp add: digits.simps str_def)

lemma july_iso:
  assumes "20270 \<le> d" "d \<le> 20300"
  shows "take 10 (isoString d) = str ''2025-07-'' @ padStart 2 (digits (nat (d - 20269)))"
  using take10_isoString[of d] july_civil[OF assms]
  by (simp add: isoDate_def digits_2025 padStart_def digits.simps str_def)

lemma july_range:
  "calculateMonthRange 20270 (Some 0) =
     Inr \<lparr>startISO = str ''2025-07-01'', endISO = str ''2025-07-31'',
          displayMonth = Some 7, displayYear = Some 2025\<rparr>"
  using calculateMonthRange_eq[of 20270 0] july_civil[of 20270]
  by (simp add: DaysInMonth_def isLeapYear_def isoDate_def digits_2025 padStart_def digits.simps str_def)

lemma july_disabledDays: "disabledDays july_disabled = {str ''2025-07-01'', str ''2025-07-05''}"
  by (simp add: disabledDays_def july_disabled_def List.map_filter_def str_def)

lemma july_all:
  "map (\<lambda>d. take 10 (isoString d)) [20270..20300]
     = map (\<lambda>n. str ''2025-07-'' @ padStart 2 (digits n)) (1 # [2..<32])"
proof -
  have "map (\<lambda>d. take 10 (isoString d)) [20270..20300]
      = map (\<lambda>d. str ''2025-07-'' @ padStart 2 (digits (nat (d - 20269)))) [20270..20300]"
  proof (rule map_cong[OF refl])
    fix x :: int
    assume "x \<in> set [20270..20300]"
    then have "20270 \<le> x" "x \<le> 20300" by (simp_all only: set_upto atLeastAtMost_iff)
    then show "take 10 (isoString x) = str ''2025-07-'' @ padStart 2 (digits (nat (x - 20269)))"
      by (rule july_iso)
  qed
  also have "\<dots> = map (\<lambda>n. str ''2025-07-'' @ padStart 2 (digits n)) (1 # [2..<32])"
    by simp
  finally show ?thesis .
qed

lemma july_dates:
  "map (isoDate 2025 7) [1..31] = map (\<lambda>n. str ''2025-07-'' @ padStart 2 (digits n)) (1 # [2..<32])"
proof -
  have "[1..31] = (1::int) # [2..31]" by (simp add: upto_rec1)
  then show ?thesis
    by (simp add: isoDate_def digits_2025 padStart_def digits.simps str_def)
qed

lemma july_days_eval:
  "filter (\<lambda>x. x \<notin> disabledDays july_disabled)
          (map (\<lambda>n. str ''2025-07-'' @ padStart 2 (digits n)) (1 # [2..<32])) = july_available"
  unfolding july_disabledDays july_available_def
  by (simp add: padStart_def digits.simps str_def)

lemma july_days: "computeAvailableDays july_disabled july = july_available"
proof -
  have c: "YearFromDay 20270 = 2025" "YearFromDay 20300 = 2025"
    using july_civil(1)[of 20270] july_civil(1)[of 20300] by simp_all
  have "computeAvailableDays july_disabled july =
      filter (\<lambda>x. x \<notin> disabledDays july_disabled) (map (\<lambda>d. take 10 (isoString d)) [20270..20300])"
    using july_iso[of 20270] july_iso[of 20300]
    by (intro computeAvailableDays_eq)
       (simp_all add: c july_def padStart_def digits.simps str_def)
  then show ?thesis by (simp only: july_all july_days_eval)
qed

lemma july_available_length: "length july_available = 29"
  by (simp add: july_available_def)

lemma july_available_nonempty: "july_available \<noteq> []"
  using july_available_length by auto

lemma range_env:
  "now env = 20270 \<Longrightarrow> TARGET_MONTH_OFFSET env = None \<Longrightarrow>
   calculateMonthRange (now env) (parseInt (orElse (TARGET_MONTH_OFFSET env) (str ''0''))) = Inr july"
  by (simp add: parseInt_0 july_range july_def)

lemma login_ok:
  "loginReply env (requests LoginRequest s) = Response 200 body (Inr c) \<Longrightarrow>
   login env s = (Inr c, KV_put ''Last_auth'' (timestamp env) (KV_put ''Cookie'' c
                    (emit LoginRequest (emit (ConsoleLog ''Authenticating...'') s))))"
  by (simp add: login_def Let_def requests_def emit_def ok_def)

lemma fetch_expired: "fetchAvailableDates fuel env_expired c s = None"
proof (induction fuel arbitrary: c s)
  case 0
  show ?case by simp
next
  case (Suc fuel)
  have r: "calculateMonthRange (now env_expired)
      (parseInt (orElse (TARGET_MONTH_OFFSET env_expired) (str ''0''))) = Inr july"
    by (rule range_env) (simp_all add: env_expired_def env_ok_def)
  have d: "datesReply env_expired n = Response 401 [] (Inl (Error []))" for n
    by (simp add: env_expired_def env_ok_def)
  have l: "login env_expired s' = (Inr (str ''{}''), KV_put ''Last_auth'' (timestamp env_expired)
      (KV_put ''Cookie'' (str ''{}'') (emit LoginRequest (emit (ConsoleLog ''Authenticating...'') s'))))"
    for s'
    by (rule login_ok) (simp add: env_expired_def env_ok_def)
  show ?case
    by (simp add: r d l Suc.IH Let_def)
qed

lemma retry_run:
  "fetchAvailableDates 3 env_retry (str ''{}'') state_0 =
     Some (Inr (july_available, july),
           \<lparr>kv = [''Cookie'' \<mapsto> str ''{}'', ''Last_auth'' \<mapsto> str ''01.07.2025, 12:00:00'',
                  ''Last'' \<mapsto> str ''200:01.07.2025, 12:00:00''],
            trace = [DatesRequest, ConsoleLog ''Auth token expired, re-authenticating...'',
                     KvDelete ''Cookie'', ConsoleLog ''Authenticating...'', LoginRequest,
                     KvPut ''Cookie'' (str ''{}''), KvPut ''Last_auth'' (str ''01.07.2025, 12:00:00''),
                     DatesRequest, ConsoleLog ''Auth token expired, re-authenticating...'',
                     KvDelete ''Cookie'', ConsoleLog ''Authenticating...'', LoginRequest,
                     KvPut ''Cookie'' (str ''{}''), KvPut ''Last_auth'' (str ''01.07.2025, 12:00:00''),
                     DatesRequest, KvPut ''Last'' (str ''200:01.07.2025, 12:00:00'')]\<rparr>)"
  by (simp add: numeral_3_eq_3 env_retry_def env_ok_def state_0_def parseInt_0 july_range
      july_def[symmetric] july_days eval_state)
     (simp add: str_def fun_eq_iff)

lemma isoDate_eval:
  "isoDate 2025 7 1 = str ''2025-07-01''" "isoDate 2025 7 31 = str ''2025-07-31''"
  "isoDate 2024 2 1 = str ''2024-02-01''" "isoDate 2024 2 29 = str ''2024-02-29''"
  "isoDate 2026 1 1 = str ''2026-01-01''" "isoDate 2026 1 31 = str ''2026-01-31''"
  by (simp_all add: isoDate_def padStart_def digits.simps str_def)

lemma MakeDay_10025: "MakeDay 10025 6 dt = 2942209 + dt"
  by (simp add: MakeDay_def DayFromYear_def DaysInYear_def monthStart_def)

lemma MakeDay_50: "MakeDay 50 6 dt = - 701085 + dt"
  by (simp add: MakeDay_def DayFromYear_def DaysInYear_def monthStart_def)

lemma MakeDay_1950: "MakeDay 1950 6 dt = - 7125 + dt"
  by (simp add: MakeDay_def DayFromYear_def DaysInYear_def monthStart_def)

section \<open>The claims\<close>

text \<open>
  C1. The claim: after a 401 or 403 the cached credential is deleted, a fresh login is made
  and the fetch is repeated exactly once, so that \<open>fetchAvailableDates\<close> makes at most two
  availability requests and returns. The code calls itself after every 401 or 403. When
  the endpoint answers 401 twice and then 200, a depth of two calls is not enough, and the
  run returns after three availability requests; when it answers 401 to every request,
  the run returns for no depth.
\<close>

theorem fetchAvailableDates_retries_unbounded:
  "fetchAvailableDates 2 env_retry (str ''{}'') state_0 = None
   \<and> fst (the (fetchAvailableDates 3 env_retry (str ''{}'') state_0)) = Inr (july_available, july)
   \<and> requests DatesRequest (snd (the (fetchAvailableDates 3 env_retry (str ''{}'') state_0))) = 3
   \<and> (\<forall>fuel. fetchAvailableDates fuel env_expired (str ''{}'') state_0 = None)"
proof -
  have "fetchAvailableDates 2 env_retry (str ''{}'') state_0 = None"
    by (simp add: numeral_2_eq_2 env_retry_def env_ok_def state_0_def parseInt_0 july_range
        eval_state)
  then show ?thesis
    by (simp add: retry_run fetch_expired requests_def)
qed

text \<open>
  C2. For every list of disabled-date records and every month range, the range from the
  first to the last day of month \<open>m\<close> of a year \<open>y\<close> from 0 to 9999,
  \<open>computeAvailableDays\<close> returns the calendar dates of the month, first and last day
  included, in ascending order, without those that are the first ten code units of some
  record's date. A record without a date adds nothing to the disabled days, and nothing
  raises.
\<close>

theorem computeAvailableDays_complement:
  assumes "0 \<le> y" "y \<le> 9999" "1 \<le> m" "m \<le> 12"
    and "startISO rng = isoDate y m 1" "endISO rng = isoDate y m (DaysInMonth y m)"
  shows "computeAvailableDays recs rng =
           filter (\<lambda>x. x \<notin> disabledDays recs) (map (isoDate y m) [1..DaysInMonth y m])"
  using assms by (rule computeAvailableDays_month)

theorem computeAvailableDays_complement_witness:
  "(0::int) \<le> 2025 \<and> (2025::int) \<le> 9999 \<and> (1::int) \<le> 7 \<and> (7::int) \<le> 12
   \<and> startISO july = isoDate 2025 7 1 \<and> endISO july = isoDate 2025 7 (DaysInMonth 2025 7)
   \<and> computeAvailableDays july_disabled july = july_available
   \<and> length july_available = 29"
proof -
  have d: "DaysInMonth 2025 7 = 31" by (simp add: DaysInMonth_def)
  have s: "startISO july = isoDate 2025 7 1" "endISO july = isoDate 2025 7 (DaysInMonth 2025 7)"
    by (simp_all add: d july_def isoDate_eval)
  have "computeAvailableDays july_disabled july =
      filter (\<lambda>x. x \<notin> disabledDays july_disabled) (map (isoDate 2025 7) [1..DaysInMonth 2025 7])"
    using s by (intro computeAvailableDays_complement) simp_all
  then have "computeAvailableDays july_disabled july = july_available"
    by (simp only: d july_dates july_days_eval)
  then show ?thesis using s by (simp add: july_available_length)
qed

text \<open>
  C3. Of two successive calls of the notifier with the same list of dates the second sends
  nothing, so that the two send at most one message; and a call whose hash differs from
  the stored \<open>Last_dates\<close> sends the message of its dates. The two calls may run in
  different cycles, with the same digest function.
\<close>

theorem duplicate_dates_suppressed:
  fixes env env' :: Env and s :: state and dates :: "jstring list" and rng rng' :: MonthRange
  defines "s1 \<equiv> snd (maybeNotifyNewDates env dates rng s)"
  defines "s2 \<equiv> snd (maybeNotifyNewDates env' dates rng' s1)"
  assumes "digest env' = digest env"
  shows "sent s2 = sent s1 \<and> length (sent s2) \<le> length (sent s) + 1 \<and>
         (kv s ''Last_dates'' \<noteq> Some (sha256Hex env (join (str '','') dates)) \<longrightarrow>
            sent s1 = sent s @ [buildDatesMessage dates rng]) \<and>
         (kv s ''Last_dates'' = Some (sha256Hex env (join (str '','') dates)) \<longrightarrow>
            sent s1 = sent s)"
proof -
  have h: "sha256Hex env' = sha256Hex env"
    using assms(3) by (simp add: sha256Hex_def fun_eq_iff)
  have "kv s1 ''Last_dates'' = Some (sha256Hex env' (join (str '','') dates))"
    unfolding s1_def h by (rule maybeNotify_kv)
  then have a: "sent s2 = sent s1"
    unfolding s2_def by (simp add: maybeNotify_sent)
  show ?thesis
    unfolding a unfolding s1_def by (simp add: maybeNotify_sent)
qed

theorem duplicate_dates_suppressed_witness:
  "digest env_ok = digest env_ok
   \<and> kv state_0 ''Last_dates'' \<noteq> Some (sha256Hex env_ok (join (str '','') july_available))
   \<and> sent (snd (maybeNotifyNewDates env_ok july_available july state_0))
       = [buildDatesMessage july_available july]
   \<and> sent (snd (maybeNotifyNewDates env_ok july_available july
              (snd (maybeNotifyNewDates env_ok july_available july state_0))))
       = [buildDatesMessage july_available july]"
proof -
  have h: "kv state_0 ''Last_dates'' \<noteq> Some (sha256Hex env_ok (join (str '','') july_available))"
    by (simp add: state_0_def)
  have e: "sent state_0 = []" by (simp add: state_0_def sent_def List.map_filter_def)
  show ?thesis
    using h duplicate_dates_suppressed[of env_ok env_ok july_available july july state_0]
    by (simp add: e)
qed

text \<open>
  C4. On a failure whose message is the one last recorded, a notification is sent if and
  only if the incremented failure count equals 3, equals 5, or is a multiple of 10; on a
  failure with a different message (or with none recorded) a notification is always sent
  and the message is persisted as \<open>last_error_msg\<close>. The incremented count is what
  \<open>fail_count\<close> holds afterwards. A notification is sent when a request to the messaging
  bot is made.
\<close>

theorem failure_notification_policy:
  fixes env :: Env and s :: state and msg :: jstring
  defines "cur \<equiv> plus (parseInt (orElse (kv s ''fail_count'') (str ''0''))) (Some 1)"
  defines "s' \<equiv> snd (recordFailureAndMaybeNotify env (Error msg) s)"
  shows "kv s' ''fail_count'' = Some (toString cur) \<and>
         (kv s ''last_error_msg'' = Some msg \<longrightarrow>
            ((\<exists>t. sent s' = sent s @ [t]) \<longleftrightarrow> escalates cur) \<and>
            (sent s' = sent s \<longleftrightarrow> \<not> escalates cur)) \<and>
         (kv s ''last_error_msg'' \<noteq> Some msg \<longrightarrow>
            (\<exists>t. sent s' = sent s @ [t]) \<and> kv s' ''last_error_msg'' = Some msg)"
proof (cases "kv s ''last_error_msg'' = Some msg")
  case True
  from recordFailure_same[OF True, of env] show ?thesis
    using True by (simp add: cur_def s'_def escalates_iff)
next
  case False
  from recordFailure_new[OF False, of env] show ?thesis
    using False by (simp add: cur_def s'_def)
qed

theorem failure_notification_policy_witness:
  "kv state_a ''last_error_msg'' = Some (str ''Dates fetch failed: 500'')
   \<and> escalates (plus (parseInt (orElse (kv state_a ''fail_count'') (str ''0''))) (Some 1))
   \<and> (\<exists>t. sent (snd (recordFailureAndMaybeNotify env_a (Error (str ''Dates fetch failed: 500'')) state_a))
           = sent state_a @ [t])
   \<and> kv state_a ''last_error_msg'' \<noteq> Some (str ''Login failed: 500 '')
   \<and> (\<exists>t. sent (snd (recordFailureAndMaybeNotify env_a (Error (str ''Login failed: 500 '')) state_a))
           = sent state_a @ [t])
   \<and> kv (snd (recordFailureAndMaybeNotify env_a (Error (str ''Login failed: 500 '')) state_a))
        ''last_error_msg'' = Some (str ''Login failed: 500 '')"
proof -
  have h1: "kv state_a ''last_error_msg'' = Some (str ''Dates fetch failed: 500'')"
    by (simp add: state_a_def)
  have h2: "escalates (plus (parseInt (orElse (kv state_a ''fail_count'') (str ''0''))) (Some 1))"
    by (simp add: state_a_def escalates_def eval_parse)
  have h3: "kv state_a ''last_error_msg'' \<noteq> Some (str ''Login failed: 500 '')"
    by (simp add: state_a_def str_def)
  show ?thesis
    using h1 h2 h3
      failure_notification_policy[of env_a "str ''Dates fetch failed: 500''" state_a]
      failure_notification_policy[of env_a "str ''Login failed: 500 ''" state_a]
    by simp
qed

text \<open>
  C5, as amended. For every month offset whose target month (the current UTC month plus the
  offset) lies in the years 100 to 9999, the current year not being one of 0 to 99,
  \<open>calculateMonthRange\<close> returns the first calendar day of the target month as \<open>startISO\<close>
  and its last calendar day as \<open>endISO\<close>, for months of 28, 29, 30 and 31 days, in leap
  years and across the end of a year.
\<close>

theorem calculateMonthRange_month:
  fixes today k :: int
  defines "tot \<equiv> MonthFromDay today + k"
  defines "ym \<equiv> YearFromDay today + tot div 12" and "mn \<equiv> tot mod 12"
  assumes "\<not> (0 \<le> YearFromDay today \<and> YearFromDay today \<le> 99)"
    and "100 \<le> ym" "ym \<le> 9999"
  shows "calculateMonthRange today (Some k) =
           Inr \<lparr>startISO = isoDate ym (mn + 1) 1,
                endISO = isoDate ym (mn + 1) (DaysInMonth ym (mn + 1)),
                displayMonth = Some (mn + 1), displayYear = Some ym\<rparr>"
  using assms(4-6) unfolding tot_def ym_def mn_def by (rule calculateMonthRange_eq)

theorem calculateMonthRange_month_witness:
  "\<not> (0 \<le> YearFromDay 20270 \<and> YearFromDay 20270 \<le> 99)
   \<and> 100 \<le> YearFromDay 20270 + (MonthFromDay 20270 + 0) div 12
   \<and> YearFromDay 20270 + (MonthFromDay 20270 + 0) div 12 \<le> 9999
   \<and> calculateMonthRange 20270 (Some 0) =
       Inr \<lparr>startISO = str ''2025-07-01'', endISO = str ''2025-07-31'',
            displayMonth = Some 7, displayYear = Some 2025\<rparr>
   \<and> 100 \<le> YearFromDay 20270 + (MonthFromDay 20270 + (- 17)) div 12
   \<and> YearFromDay 20270 + (MonthFromDay 20270 + (- 17)) div 12 \<le> 9999
   \<and> calculateMonthRange 20270 (Some (- 17)) =
       Inr \<lparr>startISO = str ''2024-02-01'', endISO = str ''2024-02-29'',
            displayMonth = Some 2, displayYear = Some 2024\<rparr>
   \<and> 100 \<le> YearFromDay 20270 + (MonthFromDay 20270 + 6) div 12
   \<and> YearFromDay 20270 + (MonthFromDay 20270 + 6) div 12 \<le> 9999
   \<and> calculateMonthRange 20270 (Some 6) =
       Inr \<lparr>startISO = str ''2026-01-01'', endISO = str ''2026-01-31'',
            displayMonth = Some 1, displayYear = Some 2026\<rparr>"
proof -
  have c: "YearFromDay 20270 = 2025" "MonthFromDay 20270 = 6"
    using july_civil(1,2)[of 20270] by simp_all
  have d: "DaysInMonth 2025 7 = 31" "DaysInMonth 2024 2 = 29" "DaysInMonth 2026 1 = 31"
    by (simp_all add: DaysInMonth_def isLeapYear_def)
  show ?thesis
    using calculateMonthRange_month[of 20270 0] calculateMonthRange_month[of 20270 "- 17"]
      calculateMonthRange_month[of 20270 6]
    by (simp add: c d isoDate_eval)
qed

text \<open>
  C5 as stated, for every month offset, fails: 96000 months after July 2025 the target
  month is July 10025, whose ISO string has a sign and six digits for the year, so that
  the first ten code units are \<open>+010025-07\<close> for both boundaries and name no day. And 23700
  months before July 2025 the target month is July of the year 50, which \<open>Date.UTC\<close> reads
  as 1950 when the last day is computed from it.
\<close>

theorem calculateMonthRange_month_counterexample:
  "calculateMonthRange 20270 (Some 96000) =
     Inr \<lparr>startISO = str ''+010025-07'', endISO = str ''+010025-07'',
          displayMonth = Some 7, displayYear = Some 10025\<rparr>
   \<and> calculateMonthRange 20270 (Some 96000) \<noteq>
     Inr \<lparr>startISO = isoDate 10025 7 1, endISO = isoDate 10025 7 (DaysInMonth 10025 7),
          displayMonth = Some 7, displayYear = Some 10025\<rparr>
   \<and> calculateMonthRange 20270 (Some (- 23700)) =
     Inr \<lparr>startISO = str ''0050-07-01'', endISO = str ''1950-07-31'',
          displayMonth = Some 7, displayYear = Some 50\<rparr>"
proof -
  have c: "YearFromDay 20270 = 2025" "MonthFromDay 20270 = 6"
    using july_civil(1,2)[of 20270] by simp_all
  have d: "DaysInMonth 10025 7 = 31" "DaysInMonth 50 7 = 31" "DaysInMonth 1950 7 = 31"
    by (simp_all add: DaysInMonth_def)
  have f: "YearFromDay 2942210 = 10025" "MonthFromDay 2942210 = 6" "DateFromDay 2942210 = 1"
    using civil_of_MakeDay[of 6 1 10025] d by (simp_all add: MakeDay_10025)
  have l: "YearFromDay 2942240 = 10025" "MonthFromDay 2942240 = 6" "DateFromDay 2942240 = 31"
    using civil_of_MakeDay[of 6 31 10025] d by (simp_all add: MakeDay_10025)
  have first: "MakeDay 2025 96006 1 = 2942210"
    by (subst MakeDay_norm) (simp add: MakeDay_10025)
  have last: "MakeDay 10025 7 0 = 2942240"
    using MakeDay_last[of 6 10025] d by (simp add: MakeDay_10025)
  have dg: "digits 10025 = str ''10025''"
    by (simp add: digits.simps str_def)
  have r: "calculateMonthRange 20270 (Some 96000) =
     Inr \<lparr>startISO = str ''+010025-07'', endISO = str ''+010025-07'',
          displayMonth = Some 7, displayYear = Some 10025\<rparr>"
    by (simp add: calculateMonthRange_def DateUTC_def getUTCFullYear_def getUTCMonth_def plus_def
        c first TimeClip_def f last l toISOString_def isoString_def dg padStart_def)
       (simp add: digits.simps str_def)
  have "isoDate 10025 7 1 = str ''10025-07-01''"
    by (simp add: isoDate_def dg padStart_def digits.simps) (simp add: str_def)
  then have n: "str ''+010025-07'' \<noteq> isoDate 10025 7 1"
    by (simp add: str_def)
  have f50: "YearFromDay (- 701084) = 50" "MonthFromDay (- 701084) = 6"
      "DateFromDay (- 701084) = 1"
    using civil_of_MakeDay[of 6 1 50] d by (simp_all add: MakeDay_50)
  have l1950: "YearFromDay (- 7094) = 1950" "MonthFromDay (- 7094) = 6"
      "DateFromDay (- 7094) = 31"
    using civil_of_MakeDay[of 6 31 1950] d by (simp_all add: MakeDay_1950)
  have first50: "MakeDay 2025 (- 23694) 1 = - 701084"
    by (subst MakeDay_norm) (simp add: MakeDay_50)
  have last1950: "MakeDay 1950 7 0 = - 7094"
    using MakeDay_last[of 6 1950] d by (simp add: MakeDay_1950)
  have r50: "calculateMonthRange 20270 (Some (- 23700)) =
     Inr \<lparr>startISO = str ''0050-07-01'', endISO = str ''1950-07-31'',
          displayMonth = Some 7, displayYear = Some 50\<rparr>"
    by (simp add: calculateMonthRange_def DateUTC_def getUTCFullYear_def getUTCMonth_def plus_def
        c first50 TimeClip_def f50 last1950 l1950 toISOString_def isoString_def padStart_def)
       (simp add: digits.simps str_def numeral_2_eq_2)
  show ?thesis unfolding r r50 using n by simp
qed

text \<open>
  C6. After every check cycle whose \<open>try\<close> block completes, with or without available
  dates, \<open>fail_count\<close> is \<open>"0"\<close> and \<open>last_error_msg\<close> is absent, whatever they were
  before, and \<open>runCheck\<close> returns normally.
\<close>

theorem success_resets_failure_state:
  assumes "runCheck_try fuel env s = Some (Inr u, s')"
  shows "runCheck fuel env s = Some (Inr (), s')
         \<and> kv s' ''fail_count'' = Some (str ''0'') \<and> kv s' ''last_error_msg'' = None"
proof -
  have "kv s' ''fail_count'' = Some (str ''0'') \<and> kv s' ''last_error_msg'' = None"
    using assms
    by (auto simp: runCheck_try_def kv_resetFailureCount kv_KV_put
        split: prod.splits sum.splits option.splits if_splits)
  then show ?thesis using assms by (simp add: runCheck_def)
qed

theorem success_resets_failure_state_witness:
  "runCheck_try 1 env_ok state_a = Some (Inr (), snd (the (runCheck_try 1 env_ok state_a)))
   \<and> kv state_a ''fail_count'' = Some (str ''9'')
   \<and> kv state_a ''last_error_msg'' = Some (str ''Dates fetch failed: 500'')
   \<and> runCheck 1 env_ok state_a = Some (Inr (), snd (the (runCheck_try 1 env_ok state_a)))
   \<and> kv (snd (the (runCheck_try 1 env_ok state_a))) ''fail_count'' = Some (str ''0'')
   \<and> kv (snd (the (runCheck_try 1 env_ok state_a))) ''last_error_msg'' = None"
proof -
  have "\<exists>S. runCheck_try 1 env_ok state_a = Some (Inr (), S)"
    by (simp add: env_ok_def state_a_def parseInt_0 july_range july_def[symmetric] july_days
        july_available_length eval_run)
  then have h: "runCheck_try 1 env_ok state_a = Some (Inr (), snd (the (runCheck_try 1 env_ok state_a)))"
    by auto
  show ?thesis
    using h success_resets_failure_state[OF h] by (simp add: state_a_def)
qed

text \<open>
  C7, as amended. Every exception raised anywhere in the \<open>try\<close> block of a check cycle
  (authentication, availability fetch, parsing or notification) is caught at the top level
  of \<open>runCheck\<close> and routed to the failure tracker: what \<open>runCheck\<close> returns is what
  \<open>recordFailureAndMaybeNotify\<close> returns for that very error, run on the state the
  \<open>try\<close> block left behind after the error is logged. So the log line and the incremented
  \<open>fail_count\<close> come next in the trace, and \<open>last_error_msg\<close> holds the message of the
  caught error afterwards. \<open>runCheck\<close> raises an error to its caller only when the failure
  tracker itself raises, which in this model is when the request of its own notification
  throws.
\<close>

theorem runCheck_routes_errors:
  fixes env :: Env and s :: state and fuel :: nat
  shows
   "(\<forall>e s1. ensureAuth env s = (Inl e, s1) \<longrightarrow> runCheck_try fuel env s = Some (Inl e, s1))
    \<and> (\<forall>c s1 e s2. ensureAuth env s = (Inr c, s1)
           \<and> fetchAvailableDates fuel env c s1 = Some (Inl e, s2) \<longrightarrow>
         runCheck_try fuel env s = Some (Inl e, s2))
    \<and> (\<forall>c s1 ds rng s2 e s3. ensureAuth env s = (Inr c, s1)
           \<and> fetchAvailableDates fuel env c s1 = Some (Inr (ds, rng), s2) \<and> ds \<noteq> []
           \<and> maybeNotifyNewDates env ds rng s2 = (Inl e, s3) \<longrightarrow>
         runCheck_try fuel env s = Some (Inl e, s3))
    \<and> (\<forall>e s1. runCheck_try fuel env s = Some (Inl e, s1) \<longrightarrow>
         (\<exists>r s'. runCheck fuel env s = Some (r, s')
            \<and> (r, s') = recordFailureAndMaybeNotify env e
                           (emit (ConsoleError ''runCheck error'') s1)
            \<and> (\<exists>rest. trace s' = trace s1 @ ConsoleError ''runCheck error''
                   # KvPut ''fail_count''
                       (toString (plus (parseInt (orElse (kv s1 ''fail_count'') (str ''0'')))
                                   (Some 1)))
                   # rest)
            \<and> kv s' ''fail_count'' =
                 Some (toString (plus (parseInt (orElse (kv s1 ''fail_count'') (str ''0'')))
                                  (Some 1)))
            \<and> kv s' ''last_error_msg'' = Some (message e)
            \<and> (\<forall>e'. r = Inl e' \<longrightarrow> telegramReply env (length (sent s1)) = NetworkError e')))
    \<and> (\<forall>e' s'. runCheck fuel env s = Some (Inl e', s') \<longrightarrow>
         (\<exists>e s1. runCheck_try fuel env s = Some (Inl e, s1)
            \<and> recordFailureAndMaybeNotify env e (emit (ConsoleError ''runCheck error'') s1)
                = (Inl e', s')
            \<and> telegramReply env (length (sent s1)) = NetworkError e'))"
proof -
  have A: "runCheck_try fuel env s = Some (Inl e, s1)" if "ensureAuth env s = (Inl e, s1)" for e s1
    using that by (simp add: runCheck_try_def)
  have B: "runCheck_try fuel env s = Some (Inl e, s2)"
    if "ensureAuth env s = (Inr c, s1)" "fetchAvailableDates fuel env c s1 = Some (Inl e, s2)"
    for c s1 e s2
    using that by (simp add: runCheck_try_def)
  have C: "runCheck_try fuel env s = Some (Inl e, s3)"
    if "ensureAuth env s = (Inr c, s1)" "fetchAvailableDates fuel env c s1 = Some (Inr (ds, rng), s2)"
       "ds \<noteq> []" "maybeNotifyNewDates env ds rng s2 = (Inl e, s3)"
    for c s1 ds rng s2 e s3
    using that by (simp add: runCheck_try_def)
  have D: "\<exists>r s'. runCheck fuel env s = Some (r, s')
            \<and> (r, s') = recordFailureAndMaybeNotify env e
                           (emit (ConsoleError ''runCheck error'') s1)
            \<and> (\<exists>rest. trace s' = trace s1 @ ConsoleError ''runCheck error''
                   # KvPut ''fail_count''
                       (toString (plus (parseInt (orElse (kv s1 ''fail_count'') (str ''0'')))
                                   (Some 1)))
                   # rest)
            \<and> kv s' ''fail_count'' =
                 Some (toString (plus (parseInt (orElse (kv s1 ''fail_count'') (str ''0'')))
                                  (Some 1)))
            \<and> kv s' ''last_error_msg'' = Some (message e)
            \<and> (\<forall>e'. r = Inl e' \<longrightarrow> telegramReply env (length (sent s1)) = NetworkError e')"
    if t: "runCheck_try fuel env s = Some (Inl e, s1)" for e s1
  proof -
    let ?s = "emit (ConsoleError ''runCheck error'') s1"
    let ?t = "recordFailureAndMaybeNotify env e ?s"
    have 1: "runCheck fuel env s = Some (fst ?t, snd ?t)"
      using runCheck_caught[OF t] by simp
    have 2: "\<exists>rest. trace (snd ?t) = trace s1 @ ConsoleError ''runCheck error''
                   # KvPut ''fail_count''
                       (toString (plus (parseInt (orElse (kv s1 ''fail_count'') (str ''0'')))
                                   (Some 1)))
                   # rest"
      using recordFailure_trace_first[of env e ?s] by (simp add: trace_emit kv_emit)
    have 3: "kv (snd ?t) ''fail_count'' =
                 Some (toString (plus (parseInt (orElse (kv s1 ''fail_count'') (str ''0'')))
                                  (Some 1)))"
      by (simp add: recordFailure_fail_count kv_emit)
    have 4: "kv (snd ?t) ''last_error_msg'' = Some (message e)"
      by (rule recordFailure_last_error)
    have 5: "telegramReply env (length (sent s1)) = NetworkError e'" if "fst ?t = Inl e'" for e'
      using recordFailure_raises[of env e ?s e'] that by (simp add: sent_emit)
    show ?thesis
      using 1 2 3 4 5 by (intro exI[of _ "fst ?t"] exI[of _ "snd ?t"]) simp
  qed
  have E: "\<exists>e s1. runCheck_try fuel env s = Some (Inl e, s1)
            \<and> recordFailureAndMaybeNotify env e (emit (ConsoleError ''runCheck error'') s1)
                = (Inl e', s')
            \<and> telegramReply env (length (sent s1)) = NetworkError e'"
    if "runCheck fuel env s = Some (Inl e', s')" for e' s'
    using that by (rule runCheck_raises_only)
  show ?thesis
    using A B C D E by blast
qed

theorem runCheck_routes_errors_witness:
  "ensureAuth env_login_500 state_0
     = (Inl (Error (str ''Login failed: 500 down'')), snd (ensureAuth env_login_500 state_0))
   \<and> runCheck_try 1 env_login_500 state_0
     = Some (Inl (Error (str ''Login failed: 500 down'')), snd (ensureAuth env_login_500 state_0))
   \<and> ensureAuth env_a state_a = (Inr (str ''{}''), snd (ensureAuth env_a state_a))
   \<and> fetchAvailableDates 1 env_a (str ''{}'') (snd (ensureAuth env_a state_a))
     = Some (Inl (Error (str ''Dates fetch failed: 500'')),
             snd (the (fetchAvailableDates 1 env_a (str ''{}'') (snd (ensureAuth env_a state_a)))))
   \<and> runCheck_try 1 env_a state_a
     = Some (Inl (Error (str ''Dates fetch failed: 500'')),
             snd (the (fetchAvailableDates 1 env_a (str ''{}'') (snd (ensureAuth env_a state_a)))))
   \<and> runCheck 1 env_a state_a
     = Some (recordFailureAndMaybeNotify env_a (Error (str ''Dates fetch failed: 500''))
              (emit (ConsoleError ''runCheck error'')
                (snd (the (fetchAvailableDates 1 env_a (str ''{}'')
                             (snd (ensureAuth env_a state_a)))))))
   \<and> fst (the (runCheck 1 env_a state_a)) = Inr ()
   \<and> kv (snd (the (runCheck 1 env_a state_a))) ''fail_count'' = Some (str ''10'')
   \<and> kv (snd (the (runCheck 1 env_a state_a))) ''last_error_msg''
       = Some (str ''Dates fetch failed: 500'')
   \<and> ensureAuth env_tg_down state_0 = (Inr (str ''{}''), state_auth)
   \<and> fetchAvailableDates 1 env_tg_down (str ''{}'') state_auth
       = Some (Inr (july_available, july), state_fetched)
   \<and> july_available \<noteq> []
   \<and> maybeNotifyNewDates env_tg_down july_available july state_fetched
       = (Inl (Error (str ''Network connection lost.'')),
          snd (maybeNotifyNewDates env_tg_down july_available july state_fetched))
   \<and> runCheck_try 1 env_tg_down state_0
       = Some (Inl (Error (str ''Network connection lost.'')),
               snd (maybeNotifyNewDates env_tg_down july_available july state_fetched))
   \<and> runCheck 1 env_tg_down state_0
       = Some (Inl (Error (str ''Network connection lost.'')),
               snd (the (runCheck 1 env_tg_down state_0)))
   \<and> telegramReply env_tg_down
         (length (sent (snd (maybeNotifyNewDates env_tg_down july_available july state_fetched))))
       = NetworkError (Error (str ''Network connection lost.''))"
proof -
  note L = runCheck_routes_errors[of env_login_500 state_0 1]
  note A = runCheck_routes_errors[of env_a state_a 1]
  note T = runCheck_routes_errors[of env_tg_down state_0 1]
  \<comment> \<open>a login that fails\<close>
  have "\<exists>S. ensureAuth env_login_500 state_0 = (Inl (Error (str ''Login failed: 500 down'')), S)"
    by (simp add: ensureAuth_def env_login_500_def env_ok_def state_0_def eval_state toString_def
        digits.simps)
       (simp add: str_def)
  then have l1: "ensureAuth env_login_500 state_0
     = (Inl (Error (str ''Login failed: 500 down'')), snd (ensureAuth env_login_500 state_0))"
    by auto
  have l2: "runCheck_try 1 env_login_500 state_0
     = Some (Inl (Error (str ''Login failed: 500 down'')), snd (ensureAuth env_login_500 state_0))"
    using L l1 by blast
  \<comment> \<open>a fetch that fails\<close>
  let ?s1 = "snd (ensureAuth env_a state_a)"
  let ?s2 = "snd (the (fetchAvailableDates 1 env_a (str ''{}'') ?s1))"
  have "\<exists>S. ensureAuth env_a state_a = (Inr (str ''{}''), S)"
    by (simp add: ensureAuth_def env_a_def env_ok_def state_a_def eval_state)
  then have a1: "ensureAuth env_a state_a = (Inr (str ''{}''), ?s1)" by auto
  have "\<exists>S. fetchAvailableDates 1 env_a (str ''{}'') ?s1
      = Some (Inl (Error (str ''Dates fetch failed: 500'')), S) \<and> kv S ''fail_count'' = Some (str ''9'')
        \<and> kv S ''last_error_msg'' = Some (str ''Dates fetch failed: 500'')"
    by (simp add: ensureAuth_def env_a_def env_ok_def state_a_def parseInt_0 july_range eval_state
        toString_def digits.simps)
       (simp add: str_def)
  then have a2: "fetchAvailableDates 1 env_a (str ''{}'') ?s1
      = Some (Inl (Error (str ''Dates fetch failed: 500'')), ?s2)"
    and f: "kv ?s2 ''fail_count'' = Some (str ''9'')"
    and m: "kv ?s2 ''last_error_msg'' = Some (str ''Dates fetch failed: 500'')"
    by auto
  have a3: "runCheck_try 1 env_a state_a = Some (Inl (Error (str ''Dates fetch failed: 500'')), ?s2)"
    using A a1 a2 by blast
  let ?t = "recordFailureAndMaybeNotify env_a (Error (str ''Dates fetch failed: 500''))
              (emit (ConsoleError ''runCheck error'') ?s2)"
  have "toString (plus (parseInt (orElse (kv S ''fail_count'') (str ''0''))) (Some 1)) = str ''10''"
    if "kv S ''fail_count'' = Some (str ''9'')" for S
    by (simp add: that eval_parse toString_def digits.simps)
  then have n: "toString (plus (parseInt (orElse (kv ?s2 ''fail_count'') (str ''0''))) (Some 1))
      = str ''10''"
    using f by blast
  from A a3 obtain r s' where a4: "runCheck 1 env_a state_a = Some (r, s')"
    and a5: "(r, s') = ?t"
    and a6: "kv s' ''fail_count'' = Some (str ''10'')"
    and a7: "kv s' ''last_error_msg'' = Some (message (Error (str ''Dates fetch failed: 500'')))"
    unfolding n[symmetric] by blast
  have "fst ?t = Inr ()"
    by (auto simp: recordFailureAndMaybeNotify_def Let_def sendTelegram_def env_a_def env_ok_def
        ok_def split: prod.splits if_splits)
  then have a8: "r = Inr ()" using a5 by (metis fst_conv)
  have b1: "runCheck 1 env_a state_a = Some ?t" using a4 a5 by simp
  have b2: "the (runCheck 1 env_a state_a) = (Inr (), s')" using a4 a8 by simp
  \<comment> \<open>a notification that fails, and the tracker's notification after it\<close>
  let ?s3 = "snd (maybeNotifyNewDates env_tg_down july_available july state_fetched)"
  have t1: "ensureAuth env_tg_down state_0 = (Inr (str ''{}''), state_auth)"
    by (simp add: ensureAuth_def env_tg_down_def env_ok_def state_0_def state_auth_def eval_state)
  have t2: "fetchAvailableDates 1 env_tg_down (str ''{}'') state_auth
        = Some (Inr (july_available, july), state_fetched)"
    by (simp add: env_tg_down_def env_ok_def state_auth_def state_fetched_def parseInt_0 july_range
        july_def[symmetric] july_days eval_state)
       (simp add: str_def fun_eq_iff)
  have "fst (maybeNotifyNewDates env_tg_down july_available july state_fetched)
      = Inl (Error (str ''Network connection lost.''))"
    by (simp add: maybeNotifyNewDates_def sendTelegram_def buildDatesMessage_nonempty Let_def
        state_fetched_def env_tg_down_def env_ok_def KV_put_def emit_def)
  then have t3: "maybeNotifyNewDates env_tg_down july_available july state_fetched
      = (Inl (Error (str ''Network connection lost.'')), ?s3)"
    by (metis prod.collapse)
  have t4: "runCheck_try 1 env_tg_down state_0
      = Some (Inl (Error (str ''Network connection lost.'')), ?s3)"
    using T t1 t2 t3 july_available_nonempty by blast
  have "fst (the (runCheck 1 env_tg_down state_0)) = Inl (Error (str ''Network connection lost.''))"
    "runCheck 1 env_tg_down state_0 \<noteq> None"
    by (simp_all add: env_tg_down_def env_ok_def state_0_def parseInt_0 july_range
        july_def[symmetric] july_days july_available_nonempty eval_run)
  then have t5: "runCheck 1 env_tg_down state_0
      = Some (Inl (Error (str ''Network connection lost.'')),
               snd (the (runCheck 1 env_tg_down state_0)))"
    by (metis option.collapse prod.collapse)
  from T t5 obtain e s1 where "runCheck_try 1 env_tg_down state_0 = Some (Inl e, s1)"
    and "telegramReply env_tg_down (length (sent s1))
       = NetworkError (Error (str ''Network connection lost.''))"
    by blast
  then have t6: "telegramReply env_tg_down (length (sent ?s3))
       = NetworkError (Error (str ''Network connection lost.''))"
    using t4 by simp
  show ?thesis
    using l1 l2 a1 a2 a3 b1 b2 a6 a7 t1 t2 t3 t4 t5 t6 july_available_nonempty
    by (simp del: fetchAvailableDates.simps One_nat_def)
qed

text \<open>
  C7 as stated fails where it says that \<open>runCheck\<close> never raises: when every request to the
  messaging bot throws, the notification of the dates throws inside the \<open>try\<close> block, the
  failure tracker's notification throws inside the \<open>catch\<close> block, and \<open>runCheck\<close> raises
  that error.
\<close>

theorem runCheck_raises_counterexample:
  "runCheck 1 env_tg_down state_0 \<noteq> None
   \<and> fst (the (runCheck 1 env_tg_down state_0)) = Inl (Error (str ''Network connection lost.''))"
  by (simp add: env_tg_down_def env_ok_def state_0_def parseInt_0 july_range july_def[symmetric]
      july_days july_available_nonempty eval_run)

text \<open>
  C8, as amended. A send that the messaging bot answers with a status outside 200 to 299 is
  logged only: \<open>sendTelegram\<close> raises no error to its caller, and a cycle whose dates
  notification is answered by any response ends as a success, with \<open>fail_count\<close> reset to
  \<open>"0"\<close> and the failure tracker not run.
\<close>

theorem failed_send_logged_only:
  "(text \<noteq> [] \<and> telegramReply env (length (sent s)) = Response st body js \<and> \<not> ok st \<longrightarrow>
      sendTelegram env text s =
        (Inr (), emit (ConsoleError ''Telegram send failed'') (emit (TelegramRequest text) s)))
   \<and> (ensureAuth env s = (Inr c, s1)
        \<and> fetchAvailableDates fuel env c s1 = Some (Inr (ds, rng), s2) \<and> ds \<noteq> []
        \<and> telegramReply env (length (sent s2)) = Response st' body' js' \<longrightarrow>
      runCheck fuel env s
        = Some (Inr (), resetFailureCount (snd (maybeNotifyNewDates env ds rng s2)))
      \<and> kv (resetFailureCount (snd (maybeNotifyNewDates env ds rng s2))) ''fail_count''
          = Some (str ''0''))"
proof -
  have a: "fst (maybeNotifyNewDates env ds rng s2) = Inr ()"
    if "telegramReply env (length (sent s2)) = Response st' body' js'"
    using that
    by (simp add: maybeNotifyNewDates_def Let_def sendTelegram_def sent_KV_put
        split: reply.splits)
  show ?thesis
    by (auto simp: sendTelegram_result runCheck_def runCheck_try_def kv_resetFailureCount
        dest: a split: prod.splits sum.splits)
qed

theorem failed_send_logged_only_witness:
  "str ''x'' \<noteq> []
   \<and> telegramReply env_tg_500 (length (sent state_0)) = Response 500 [] (Inl (Error []))
   \<and> \<not> ok 500
   \<and> sendTelegram env_tg_500 (str ''x'') state_0 =
        (Inr (), emit (ConsoleError ''Telegram send failed'')
                   (emit (TelegramRequest (str ''x'')) state_0))
   \<and> ensureAuth env_tg_500 state_0 = (Inr (str ''{}''), state_auth)
   \<and> fetchAvailableDates 1 env_tg_500 (str ''{}'') state_auth
        = Some (Inr (july_available, july), state_fetched)
   \<and> july_available \<noteq> []
   \<and> telegramReply env_tg_500 (length (sent state_fetched)) = Response 500 [] (Inl (Error []))
   \<and> runCheck 1 env_tg_500 state_0 =
        Some (Inr (), resetFailureCount
                        (snd (maybeNotifyNewDates env_tg_500 july_available july state_fetched)))
   \<and> kv (resetFailureCount
            (snd (maybeNotifyNewDates env_tg_500 july_available july state_fetched)))
        ''fail_count'' = Some (str ''0'')"
proof -
  have h1: "str ''x'' \<noteq> []" by (simp add: str_def)
  have h2: "telegramReply env_tg_500 n = Response 500 [] (Inl (Error []))" for n
    by (simp add: env_tg_500_def env_ok_def)
  have h3: "\<not> ok 500" by (simp add: ok_def)
  have h4: "ensureAuth env_tg_500 state_0 = (Inr (str ''{}''), state_auth)"
    by (simp add: ensureAuth_def env_tg_500_def env_ok_def state_0_def state_auth_def eval_state)
  have h5: "fetchAvailableDates 1 env_tg_500 (str ''{}'') state_auth
        = Some (Inr (july_available, july), state_fetched)"
    by (simp add: env_tg_500_def env_ok_def state_auth_def state_fetched_def parseInt_0 july_range
        july_def[symmetric] july_days eval_state)
       (simp add: str_def fun_eq_iff)
  show ?thesis
    using h1 h2 h3 h4 h5 july_available_nonempty
      failed_send_logged_only[of "str ''x''" env_tg_500 state_0 500 "[]" "Inl (Error [])"
        "str ''{}''" state_auth 1 july_available july state_fetched 500 "[]" "Inl (Error [])"]
    by simp
qed

text \<open>
  C8 as stated, for every failed send, fails: a send whose request throws raises that error
  to its caller, and in a cycle it sets off the failure tracker, which increments
  \<open>fail_count\<close> and attempts a second send.
\<close>

theorem failed_send_escalates_counterexample:
  "fst (sendTelegram env_tg_down (str ''x'') state_0) = Inl (Error (str ''Network connection lost.''))
   \<and> runCheck 1 env_tg_down state_0 \<noteq> None
   \<and> kv (snd (the (runCheck 1 env_tg_down state_0))) ''fail_count'' = Some (str ''1'')
   \<and> length (sent (snd (the (runCheck 1 env_tg_down state_0)))) = 2"
proof -
  have a: "fst (sendTelegram env_tg_down (str ''x'') state_0) = Inl (Error (str ''Network connection lost.''))"
    by (simp add: sendTelegram_def env_tg_down_def env_ok_def state_0_def str_def Let_def)
  have b: "runCheck 1 env_tg_down state_0 \<noteq> None
   \<and> kv (snd (the (runCheck 1 env_tg_down state_0))) ''fail_count'' = Some (toString (Some 1))
   \<and> length (sent (snd (the (runCheck 1 env_tg_down state_0)))) = 2"
    by (simp add: env_tg_down_def env_ok_def state_0_def parseInt_0 july_range july_def[symmetric]
      july_days july_available_nonempty eval_run plus_def)
  have "toString (Some 1) = str ''1''" by (simp add: toString_def digits.simps str_def)
  then show ?thesis using a b by simp
qed



text \<open>
  C10. The text of a failure notification embeds the error message cut to at most 300
  code units for a new error and to at most 200 for an escalation: unchanged when it fits,
  and otherwise its first 297 (197) code units followed by three dots.
\<close>

theorem failure_text_truncated:
  fixes env :: Env and s :: state and msg :: jstring
  defines "cur \<equiv> plus (parseInt (orElse (kv s ''fail_count'') (str ''0''))) (Some 1)"
  defines "s' \<equiv> snd (recordFailureAndMaybeNotify env (Error msg) s)"
  defines "e300 \<equiv> truncate_msg msg 300" and "e200 \<equiv> truncate_msg msg 200"
  shows "(kv s ''last_error_msg'' \<noteq> Some msg \<longrightarrow>
            sent s' = sent s @ [[10071] @ str '' Error: '' @ e300 @ str '' (fail #''
                                @ toString cur @ str '')'']) \<and>
         (kv s ''last_error_msg'' = Some msg \<and> escalates cur \<longrightarrow>
            sent s' = sent s @ [[9888, 65039] @ str '' Still failing ('' @ toString cur
                                @ str '' times): '' @ e200]) \<and>
         length e300 \<le> 300 \<and> length e200 \<le> 200 \<and>
         (length msg \<le> 300 \<longrightarrow> e300 = msg) \<and> (length msg \<le> 200 \<longrightarrow> e200 = msg) \<and>
         (300 < length msg \<longrightarrow>
            length e300 = 300 \<and> take 297 e300 = take 297 msg \<and> drop 297 e300 = str ''...'') \<and>
         (200 < length msg \<longrightarrow>
            length e200 = 200 \<and> take 197 e200 = take 197 msg \<and> drop 197 e200 = str ''...'')"
proof -
  have a: "kv s ''last_error_msg'' \<noteq> Some msg \<Longrightarrow>
      sent s' = sent s @ [[10071] @ str '' Error: '' @ e300 @ str '' (fail #''
                                @ toString cur @ str '')'']"
    using recordFailure_new(1)[of s msg env] by (simp add: cur_def s'_def e300_def)
  have b: "kv s ''last_error_msg'' = Some msg \<Longrightarrow> escalates cur \<Longrightarrow>
      sent s' = sent s @ [[9888, 65039] @ str '' Still failing ('' @ toString cur
                                @ str '' times): '' @ e200]"
    using recordFailure_same(1)[of s msg env] by (simp add: cur_def s'_def e200_def escalates_iff)
  have c: "length e300 \<le> 300" "length msg \<le> 300 \<Longrightarrow> e300 = msg"
     "300 < length msg \<Longrightarrow> length e300 = 300 \<and> take 297 e300 = take 297 msg \<and> drop 297 e300 = str ''...''"
    using truncate_msg_props[of 300 msg] by (simp_all add: e300_def)
  have d: "length e200 \<le> 200" "length msg \<le> 200 \<Longrightarrow> e200 = msg"
     "200 < length msg \<Longrightarrow> length e200 = 200 \<and> take 197 e200 = take 197 msg \<and> drop 197 e200 = str ''...''"
    using truncate_msg_props[of 200 msg] by (simp_all add: e200_def)
  show ?thesis using a b c d by blast
qed

theorem failure_text_truncated_witness:
  "kv state_a ''last_error_msg'' \<noteq> Some (replicate 301 97)
   \<and> 300 < length (replicate 301 (97::nat))
   \<and> sent (snd (recordFailureAndMaybeNotify env_a (Error (replicate 301 97)) state_a))
       = sent state_a @ [[10071] @ str '' Error: '' @ truncate_msg (replicate 301 97) 300
                         @ str '' (fail #10)'']
   \<and> truncate_msg (replicate 301 97) 300 = replicate 297 97 @ str ''...''
   \<and> kv state_a ''last_error_msg'' = Some (str ''Dates fetch failed: 500'')
   \<and> escalates (plus (parseInt (orElse (kv state_a ''fail_count'') (str ''0''))) (Some 1))
   \<and> sent (snd (recordFailureAndMaybeNotify env_a (Error (str ''Dates fetch failed: 500'')) state_a))
       = sent state_a @ [[9888, 65039] @ str '' Still failing (10 times): Dates fetch failed: 500'']"
proof -
  have "length (str ''Dates fetch failed: 500'') \<noteq> length (replicate 301 (97::nat))"
    by (simp add: str_def)
  then have "str ''Dates fetch failed: 500'' \<noteq> replicate 301 97"
    by auto
  then have h1: "kv state_a ''last_error_msg'' \<noteq> Some (replicate 301 97)"
    by (simp add: state_a_def)
  have h2: "kv state_a ''last_error_msg'' = Some (str ''Dates fetch failed: 500'')"
    by (simp add: state_a_def)
  have h3: "escalates (plus (parseInt (orElse (kv state_a ''fail_count'') (str ''0''))) (Some 1))"
    by (simp add: state_a_def escalates_def eval_parse)
  have cur: "toString (plus (parseInt (orElse (kv state_a ''fail_count'') (str ''0''))) (Some 1))
      = str ''10''"
    by (simp add: state_a_def eval_parse toString_def digits.simps)
  have t: "truncate_msg (replicate 301 97) 300 = replicate 297 97 @ str ''...''"
    by (simp add: truncate_msg_def slice0_def)
  have u: "truncate_msg (str ''Dates fetch failed: 500'') 200 = str ''Dates fetch failed: 500''"
    by (simp add: truncate_msg_def str_def)
  show ?thesis
    using h1 h2 h3 t
      failure_text_truncated[of state_a "replicate 301 97" env_a]
      failure_text_truncated[of state_a "str ''Dates fetch failed: 500''" env_a]
    by (simp add: cur u) (simp add: str_def)
qed

end
